theory Spec2Isabelle
  imports Main "HOL-Library.Multiset"
begin

section \<open>check_files.py: the data model\<close>

text \<open>
  The exceptions the program can meet. \<open>FileNotFoundError\<close> and \<open>PermissionError\<close> are
  subclasses of Python's \<open>OSError\<close>; \<open>OSError_other\<close> stands for every other \<open>OSError\<close>
  (too many levels of symbolic links, for instance). \<open>IndexError\<close> and \<open>KeyError\<close> are not.
\<close>

datatype py_exception =
  IndexError | KeyError | FileNotFoundError | PermissionError | OSError_other

fun is_OSError :: "py_exception \<Rightarrow> bool" where
  "is_OSError FileNotFoundError = True"
| "is_OSError PermissionError = True"
| "is_OSError OSError_other = True"
| "is_OSError IndexError = False"
| "is_OSError KeyError = False"

text \<open>The three fields of \<open>os.stat_result\<close> that the program reads.\<close>

record stat_result =
  st_mode :: nat
  st_uid :: nat
  st_gid :: nat

text \<open>
  The dictionary returned by \<open>get_data_information\<close>: five keys, each holding a string or
  Python's \<open>None\<close>.
\<close>

record entry =
  entry_group :: "string option"
  entry_mode :: "string option"
  entry_type :: "string option"
  entry_user :: "string option"
  entry_prot :: "string option"

subsection \<open>The operating system\<close>

text \<open>
  What a path names when it is inspected: an object that is not a symbolic link (its file
  type, its twelve permission bits, owner id and group id), a symbolic link with the path it
  leads to, or an object whose status cannot be read for lack of permission.
\<close>

datatype file_kind = Regular | Directory | BlockDev | CharDev | Fifo | Socket

datatype inode =
  Object file_kind nat nat nat
| Symlink string
| NoAccess

text \<open>
  The environment of one run: the objects found at inspection time (a path bound to nothing
  does not exist), the user database and the group database.
\<close>

record os_env =
  inodes :: "string \<Rightarrow> inode option"
  passwd :: "nat \<Rightarrow> string option"
  groupdb :: "nat \<Rightarrow> string option"

text \<open>The constants of Python's \<open>stat\<close> module (octal values in the comments).\<close>

definition S_IFLNK :: nat where "S_IFLNK = 40960"  \<comment> \<open>0o120000\<close>
definition S_IFSOCK :: nat where "S_IFSOCK = 49152"  \<comment> \<open>0o140000\<close>
definition S_IFREG :: nat where "S_IFREG = 32768"  \<comment> \<open>0o100000\<close>
definition S_IFBLK :: nat where "S_IFBLK = 24576"  \<comment> \<open>0o060000\<close>
definition S_IFDIR :: nat where "S_IFDIR = 16384"  \<comment> \<open>0o040000\<close>
definition S_IFCHR :: nat where "S_IFCHR = 8192"  \<comment> \<open>0o020000\<close>
definition S_IFIFO :: nat where "S_IFIFO = 4096"  \<comment> \<open>0o010000\<close>
definition S_ISUID :: nat where "S_ISUID = 2048"  \<comment> \<open>0o4000\<close>
definition S_ISGID :: nat where "S_ISGID = 1024"  \<comment> \<open>0o2000\<close>
definition S_ISVTX :: nat where "S_ISVTX = 512"  \<comment> \<open>0o1000\<close>
definition S_IRUSR :: nat where "S_IRUSR = 256"  \<comment> \<open>0o400\<close>
definition S_IWUSR :: nat where "S_IWUSR = 128"  \<comment> \<open>0o200\<close>
definition S_IXUSR :: nat where "S_IXUSR = 64"  \<comment> \<open>0o100\<close>
definition S_IRGRP :: nat where "S_IRGRP = 32"  \<comment> \<open>0o040\<close>
definition S_IWGRP :: nat where "S_IWGRP = 16"  \<comment> \<open>0o020\<close>
definition S_IXGRP :: nat where "S_IXGRP = 8"  \<comment> \<open>0o010\<close>
definition S_IROTH :: nat where "S_IROTH = 4"  \<comment> \<open>0o004\<close>
definition S_IWOTH :: nat where "S_IWOTH = 2"  \<comment> \<open>0o002\<close>
definition S_IXOTH :: nat where "S_IXOTH = 1"  \<comment> \<open>0o001\<close>

text \<open>\<open>stat.S_IMODE(mode)\<close> is \<open>mode & 0o7777\<close>; \<open>stat.S_ISDIR(mode)\<close> compares the file-type bits.\<close>

definition S_IMODE :: "nat \<Rightarrow> nat" where
  "S_IMODE m = and m 4095"

definition S_ISDIR :: "nat \<Rightarrow> bool" where
  "S_ISDIR m = (and m 61440 = S_IFDIR)"

fun ifmt :: "file_kind \<Rightarrow> nat" where
  "ifmt Regular = S_IFREG"
| "ifmt Directory = S_IFDIR"
| "ifmt BlockDev = S_IFBLK"
| "ifmt CharDev = S_IFCHR"
| "ifmt Fifo = S_IFIFO"
| "ifmt Socket = S_IFSOCK"

text \<open>
  \<open>os.stat(path)\<close> follows symbolic links (it is not \<open>os.lstat\<close>): the status it returns is
  that of the object at the end of the chain of links. The kernel gives up after 40 links
  with an \<open>OSError\<close>. A missing path raises \<open>FileNotFoundError\<close>, an unreadable one
  \<open>PermissionError\<close>.
\<close>

fun follow :: "nat \<Rightarrow> (string \<Rightarrow> inode option) \<Rightarrow> string \<Rightarrow> py_exception + stat_result" where
  "follow n fs p =
     (case fs p of
        None \<Rightarrow> Inl FileNotFoundError
      | Some NoAccess \<Rightarrow> Inl PermissionError
      | Some (Object k perm uid gid) \<Rightarrow>
          Inr \<lparr>st_mode = ifmt k + perm mod 4096, st_uid = uid, st_gid = gid\<rparr>
      | Some (Symlink target) \<Rightarrow>
          (case n of 0 \<Rightarrow> Inl OSError_other | Suc m \<Rightarrow> follow m fs target))"

declare follow.simps [simp del]

definition os_stat :: "os_env \<Rightarrow> string \<Rightarrow> py_exception + stat_result" where
  "os_stat env p = follow 40 (inodes env) p"

text \<open>\<open>os.path.isdir\<close> calls \<open>os.stat\<close> and answers \<open>False\<close> on any \<open>OSError\<close>.\<close>

definition os_path_isdir :: "os_env \<Rightarrow> string \<Rightarrow> bool" where
  "os_path_isdir env p =
     (case os_stat env p of Inl e \<Rightarrow> False | Inr st \<Rightarrow> S_ISDIR (st_mode st))"

text \<open>\<open>pwd.getpwuid(uid)[0]\<close> and \<open>grp.getgrgid(gid)[0]\<close> raise \<open>KeyError\<close> for an unknown id.\<close>

definition getpwuid :: "os_env \<Rightarrow> nat \<Rightarrow> py_exception + string" where
  "getpwuid env uid = (case passwd env uid of None \<Rightarrow> Inl KeyError | Some name \<Rightarrow> Inr name)"

definition getgrgid :: "os_env \<Rightarrow> nat \<Rightarrow> py_exception + string" where
  "getgrgid env gid = (case groupdb env gid of None \<Rightarrow> Inl KeyError | Some name \<Rightarrow> Inr name)"

subsection \<open>Python's string functions\<close>

text \<open>\<open>oct(n)\<close> for a natural number: the prefix \<open>0o\<close> and the octal digits, \<open>0o0\<close> for zero.\<close>

definition octal_digit :: "nat \<Rightarrow> char" where
  "octal_digit d = ''01234567'' ! d"

fun octal_digits :: "nat \<Rightarrow> string" where
  "octal_digits n = (if n < 8 then [octal_digit n] else octal_digits (n div 8) @ [octal_digit (n mod 8)])"

declare octal_digits.simps [simp del]

definition oct :: "nat \<Rightarrow> string" where
  "oct n = ''0o'' @ octal_digits n"

text \<open>\<open>s.replace(c, '')\<close> for a one-character \<open>c\<close> deletes every occurrence of it.\<close>

definition replace_char_by_empty :: "char \<Rightarrow> string \<Rightarrow> string" where
  "replace_char_by_empty c s = filter (\<lambda>x. x \<noteq> c) s"

text \<open>\<open>s[-3:]\<close>: the last three characters, the whole string when it is shorter.\<close>

definition last3 :: "string \<Rightarrow> string" where
  "last3 s = drop (length s - 3) s"

text \<open>\<open>s.split(sep)\<close> for a one-character separator: never empty, \<open>''.split('/') = ['']\<close>.\<close>

fun py_split :: "char \<Rightarrow> string \<Rightarrow> string list" where
  "py_split c [] = [[]]"
| "py_split c (x # xs) =
     (if x = c then [] # py_split c xs
      else (case py_split c xs of [] \<Rightarrow> [[x]] | w # ws \<Rightarrow> (x # w) # ws))"

definition endswith :: "string \<Rightarrow> string \<Rightarrow> bool" where
  "endswith s suf = (length suf \<le> length s \<and> drop (length s - length suf) s = suf)"

section \<open>check_files.py: the functions\<close>

subsection \<open>get_filemode\<close>

text \<open>
  \<open>_filemode_list\<close>: ten dictionaries, each an ordered table from a bit mask to a character
  (a Python dictionary iterates in insertion order).
\<close>

definition filemode_list :: "(nat \<times> char) list list" where
  "filemode_list =
    [[(S_IFLNK, CHR ''l''), (S_IFREG, CHR ''-''), (S_IFBLK, CHR ''b''),
      (S_IFDIR, CHR ''d''), (S_IFCHR, CHR ''c''), (S_IFIFO, CHR ''p'')],
     [(S_IRUSR, CHR ''r'')],
     [(S_IWUSR, CHR ''w'')],
     [(or S_IXUSR S_ISUID, CHR ''s''), (S_ISUID, CHR ''S''), (S_IXUSR, CHR ''x'')],
     [(S_IRGRP, CHR ''r'')],
     [(S_IWGRP, CHR ''w'')],
     [(or S_IXGRP S_ISGID, CHR ''s''), (S_ISGID, CHR ''S''), (S_IXGRP, CHR ''x'')],
     [(S_IROTH, CHR ''r'')],
     [(S_IWOTH, CHR ''w'')],
     [(or S_IXOTH S_ISVTX, CHR ''t''), (S_ISVTX, CHR ''T''), (S_IXOTH, CHR ''x'')]]"

text \<open>
  The inner \<open>for ... else\<close>: the value of the first key \<open>k\<close> with \<open>mode & k == k\<close>, and \<open>-\<close>
  when the loop ends without a \<open>break\<close>.
\<close>

fun first_match :: "nat \<Rightarrow> (nat \<times> char) list \<Rightarrow> char" where
  "first_match mode [] = CHR ''-''"
| "first_match mode ((k, v) # items) =
     (if and mode k = k then v else first_match mode items)"

definition get_filemode :: "nat \<Rightarrow> string" where
  "get_filemode mode = map (first_match mode) filemode_list"

subsection \<open>get_data_information\<close>

text \<open>The octal mode string: \<open>oct\<close>, the \<open>o\<close> removed, cut to the last three characters when longer.\<close>

definition mode_string :: "nat \<Rightarrow> string" where
  "mode_string m =
     (let mode_str = replace_char_by_empty (CHR ''o'') (oct (S_IMODE m))
      in if length mode_str > 3 then last3 mode_str else mode_str)"

text \<open>The body of the \<open>try\<close> block.\<close>

definition get_data_information_body :: "os_env \<Rightarrow> string \<Rightarrow> py_exception + entry" where
  "get_data_information_body env item =
     (case os_stat env item of
        Inl e \<Rightarrow> Inl e
      | Inr stat_info \<Rightarrow>
          (case getpwuid env (st_uid stat_info) of
             Inl e \<Rightarrow> Inl e
           | Inr user \<Rightarrow>
               (case getgrgid env (st_gid stat_info) of
                  Inl e \<Rightarrow> Inl e
                | Inr grp \<Rightarrow>
                    Inr \<lparr>entry_group = Some grp,
                         entry_mode = Some (mode_string (st_mode stat_info)),
                         entry_type = Some (if os_path_isdir env item then ''directory'' else ''file''),
                         entry_user = Some user,
                         entry_prot = Some (get_filemode (st_mode stat_info))\<rparr>)))"

definition none_entry :: entry where
  "none_entry = \<lparr>entry_group = None, entry_mode = None, entry_type = None,
                 entry_user = None, entry_prot = None\<rparr>"

text \<open>
  The handlers: \<open>FileNotFoundError\<close> returns the dictionary of five \<open>None\<close>; any other
  \<open>OSError\<close> is passed over and the function returns \<open>None\<close>; every other exception leaves
  the function.
\<close>

definition get_data_information :: "os_env \<Rightarrow> string \<Rightarrow> py_exception + entry option" where
  "get_data_information env item =
     (case get_data_information_body env item of
        Inr d \<Rightarrow> Inr (Some d)
      | Inl e \<Rightarrow>
          (if e = FileNotFoundError then Inr (Some none_entry)
           else if is_OSError e then Inr None
           else Inl e))"

subsection \<open>remove_initial_bar_chars, remove_ending_bar_chars\<close>

text \<open>Both index the string first, which raises \<open>IndexError\<close> on the empty string.\<close>

fun remove_initial_bar_chars :: "string \<Rightarrow> py_exception + string" where
  "remove_initial_bar_chars [] = Inl IndexError"
| "remove_initial_bar_chars (c # cs) = (if c = CHR ''/'' then Inr cs else Inr (c # cs))"

definition remove_ending_bar_chars :: "string \<Rightarrow> py_exception + string" where
  "remove_ending_bar_chars path =
     (if path = [] then Inl IndexError
      else if last path = CHR ''/'' then Inr (butlast path)
      else Inr path)"

subsection \<open>os.walk\<close>

text \<open>
  The directory tree that \<open>os.walk\<close> finds: a directory lists its subdirectories and its
  other entries. A subdirectory bound to \<open>None\<close> is named in \<open>dirnames\<close> and not walked: a
  symbolic link to a directory (the walk is called with \<open>followlinks=False\<close>) or a
  directory that cannot be listed.
\<close>

datatype walk_tree = Listing "(string \<times> walk_tree option) list" "string list"

text \<open>\<open>os.path.join(a, b)\<close> on POSIX.\<close>

definition path_join :: "string \<Rightarrow> string \<Rightarrow> string" where
  "path_join a b =
     (if b \<noteq> [] \<and> hd b = CHR ''/'' then b
      else if a = [] \<or> last a = CHR ''/'' then a @ b
      else a @ ''/'' @ b)"

type_synonym walk_triple = "string \<times> string list \<times> string list"

text \<open>Top-down: the directory itself, then each subdirectory in the order listed.\<close>

fun os_walk_dir :: "string \<Rightarrow> walk_tree \<Rightarrow> walk_triple list"
  and os_walk_subdirs :: "string \<Rightarrow> (string \<times> walk_tree option) list \<Rightarrow> walk_triple list" where
  "os_walk_dir dir (Listing dirs nondirs) =
     (dir, map fst dirs, nondirs) # os_walk_subdirs dir dirs"
| "os_walk_subdirs dir [] = []"
| "os_walk_subdirs dir ((dirname, None) # dirs) = os_walk_subdirs dir dirs"
| "os_walk_subdirs dir ((dirname, Some t) # dirs) =
     os_walk_dir (path_join dir dirname) t @ os_walk_subdirs dir dirs"

text \<open>A root that does not exist or cannot be listed yields nothing.\<close>

definition os_walk :: "string \<Rightarrow> walk_tree option \<Rightarrow> walk_triple list" where
  "os_walk dir root = (case root of None \<Rightarrow> [] | Some t \<Rightarrow> os_walk_dir dir t)"

subsection \<open>get_current_items\<close>

text \<open>
  \<open>Counter(xs)\<close> is the multiset of the list; \<open>Counter\<close> subtraction keeps the positive
  counts only, which is multiset difference; the result equals \<open>{}\<close> when it is empty.
  The loop over \<open>ignore_folders\<close> takes the flag as it stands and returns it as the loop
  leaves it.
\<close>

fun check_ignored :: "bool \<Rightarrow> string multiset \<Rightarrow> string list \<Rightarrow> py_exception + bool" where
  "check_ignored flag path_list [] = Inr flag"
| "check_ignored flag path_list (item_ignored # rest) =
     (case remove_initial_bar_chars item_ignored of
        Inl e \<Rightarrow> Inl e
      | Inr item \<Rightarrow>
          (if mset (py_split (CHR ''/'') item) - path_list = {#} then Inr True
           else check_ignored False path_list rest))"

type_synonym snapshot = "string \<Rightarrow> entry option option"

text \<open>The loop over \<open>filenames\<close>.\<close>

fun add_files :: "os_env \<Rightarrow> string list \<Rightarrow> string \<Rightarrow> snapshot \<Rightarrow> string list \<Rightarrow> py_exception + snapshot" where
  "add_files env ignore_folders dirpath d [] = Inr d"
| "add_files env ignore_folders dirpath d (filename # filenames) =
     (let file_path = dirpath @ ''/'' @ filename
      in if \<not> endswith file_path ''.pyc'' \<and> file_path \<notin> set ignore_folders
         then (case get_data_information env file_path of
                 Inl e \<Rightarrow> Inl e
               | Inr v \<Rightarrow> add_files env ignore_folders dirpath (d(file_path \<mapsto> v)) filenames)
         else add_files env ignore_folders dirpath d filenames)"

text \<open>
  One round of the loop over the walk, on the state \<open>(files_items_dict, flag_no_file_detected)\<close>.
\<close>

definition visit_dir :: "os_env \<Rightarrow> string list \<Rightarrow> snapshot \<times> bool \<Rightarrow> walk_triple \<Rightarrow> py_exception + snapshot \<times> bool" where
  "visit_dir env ignore_folders s t =
     (case remove_ending_bar_chars (fst t) of
        Inl e \<Rightarrow> Inl e
      | Inr dirpath \<Rightarrow>
          (case remove_initial_bar_chars dirpath of
             Inl e \<Rightarrow> Inl e
           | Inr aux_dirpath \<Rightarrow>
               (case check_ignored (snd s) (mset (py_split (CHR ''/'') aux_dirpath)) ignore_folders of
                  Inl e \<Rightarrow> Inl e
                | Inr flag \<Rightarrow>
                    (if \<not> flag then
                       (case get_data_information env dirpath of
                          Inl e \<Rightarrow> Inl e
                        | Inr v \<Rightarrow>
                            (case add_files env ignore_folders dirpath ((fst s)(dirpath \<mapsto> v)) (snd (snd t)) of
                               Inl e \<Rightarrow> Inl e
                             | Inr d \<Rightarrow> Inr (d, flag)))
                     else Inr (fst s, flag)))))"

fun walk_loop :: "os_env \<Rightarrow> string list \<Rightarrow> snapshot \<times> bool \<Rightarrow> walk_triple list \<Rightarrow> py_exception + snapshot \<times> bool" where
  "walk_loop env ignore_folders s [] = Inr s"
| "walk_loop env ignore_folders s (t # ts) =
     (case visit_dir env ignore_folders s t of
        Inl e \<Rightarrow> Inl e
      | Inr s' \<Rightarrow> walk_loop env ignore_folders s' ts)"

text \<open>
  \<open>get_current_items(path, ignore_folders)\<close>; \<open>root\<close> is the directory tree that the walk
  finds at \<open>path\<close>.
\<close>

definition get_current_items :: "os_env \<Rightarrow> walk_tree option \<Rightarrow> string \<Rightarrow> string list \<Rightarrow> py_exception + snapshot" where
  "get_current_items env root path ignore_folders =
     (case walk_loop env ignore_folders (Map.empty, False) (os_walk path root) of
        Inl e \<Rightarrow> Inl e
      | Inr s \<Rightarrow> Inr (fst s))"

subsection \<open>The entry point's description of one name\<close>

text \<open>
  Each field is read with \<open>current_items[name][key]\<close>, which raises \<open>TypeError\<close> exactly when
  the stored value is \<open>None\<close>; the handler then puts \<open>'-'\<close>.
\<close>

definition description :: "entry option \<Rightarrow> entry" where
  "description v =
     \<lparr>entry_group = (case v of None \<Rightarrow> Some ''-'' | Some d \<Rightarrow> entry_group d),
      entry_mode = (case v of None \<Rightarrow> Some ''-'' | Some d \<Rightarrow> entry_mode d),
      entry_type = (case v of None \<Rightarrow> Some ''-'' | Some d \<Rightarrow> entry_type d),
      entry_user = (case v of None \<Rightarrow> Some ''-'' | Some d \<Rightarrow> entry_user d),
      entry_prot = (case v of None \<Rightarrow> Some ''-'' | Some d \<Rightarrow> entry_prot d)\<rparr>"

text \<open>The description that the handlers produce when every read raises: five times \<open>'-'\<close>.\<close>

definition sentinel_entry :: entry where
  "sentinel_entry = \<lparr>entry_group = Some ''-'', entry_mode = Some ''-'', entry_type = Some ''-'',
                     entry_user = Some ''-'', entry_prot = Some ''-''\<rparr>"

section \<open>The specification's notions\<close>

text \<open>
  The exclusion test in the specification's words: a rule, its leading separator removed,
  matches a directory when the multiset of the rule's components is contained in the
  multiset of the components of the directory's normalized path (every component occurs in
  the path at least as often as in the rule). A rule that is the empty string matches
  nothing here; the program raises \<open>IndexError\<close> when it reaches one.
\<close>

definition spec_rule_matches :: "string \<Rightarrow> string \<Rightarrow> bool" where
  "spec_rule_matches rule aux =
     (case remove_initial_bar_chars rule of
        Inl e \<Rightarrow> False
      | Inr r \<Rightarrow> mset (py_split (CHR ''/'') r) \<subseteq># mset (py_split (CHR ''/'') aux))"

definition spec_dir_excluded :: "string list \<Rightarrow> string \<Rightarrow> bool" where
  "spec_dir_excluded rules aux = (\<exists>rule \<in> set rules. spec_rule_matches rule aux)"

text \<open>
  The normalisation in the specification's words, for one separator at each end: a string
  without its last character when that is a separator, and without its first character when
  that is a separator.
\<close>

definition spec_strip_trailing :: "string \<Rightarrow> string" where
  "spec_strip_trailing s = (if s \<noteq> [] \<and> last s = CHR ''/'' then butlast s else s)"

definition spec_strip_leading :: "string \<Rightarrow> string" where
  "spec_strip_leading s = (if s \<noteq> [] \<and> hd s = CHR ''/'' then tl s else s)"

text \<open>
  Where a path leads: the path itself when it is not a symbolic link, else where its link
  leads, through at most \<open>n\<close> links; \<open>None\<close> when the chain of links is longer than that.
\<close>

fun chain_end :: "nat \<Rightarrow> (string \<Rightarrow> inode option) \<Rightarrow> string \<Rightarrow> string option" where
  "chain_end n fs p =
     (case fs p of
        Some (Symlink target) \<Rightarrow>
          (case n of 0 \<Rightarrow> None | Suc m \<Rightarrow> chain_end m fs target)
      | _ \<Rightarrow> Some p)"

declare chain_end.simps [simp del]

text \<open>The type character of the ten-character convention, for an object that is not a link.\<close>

fun spec_type_char :: "file_kind \<Rightarrow> char" where
  "spec_type_char Regular = CHR ''-''"
| "spec_type_char Directory = CHR ''d''"
| "spec_type_char BlockDev = CHR ''b''"
| "spec_type_char CharDev = CHR ''c''"
| "spec_type_char Fifo = CHR ''p''"
| "spec_type_char Socket = CHR ''-''"

text \<open>The keys that the files of a directory with key \<open>d\<close> contribute.\<close>

definition file_keys :: "string list \<Rightarrow> string \<Rightarrow> string list \<Rightarrow> string set" where
  "file_keys rules d fns =
     set (filter (\<lambda>k. \<not> endswith k ''.pyc'' \<and> k \<notin> set rules) (map (\<lambda>f. d @ ''/'' @ f) fns))"

text \<open>The keys that one round of the walk contributes: none when the directory is excluded.\<close>

definition dir_keys :: "string list \<Rightarrow> walk_triple \<Rightarrow> string set" where
  "dir_keys rules t =
     (case remove_ending_bar_chars (fst t) of
        Inl e \<Rightarrow> {}
      | Inr d \<Rightarrow>
          (case remove_initial_bar_chars d of
             Inl e \<Rightarrow> {}
           | Inr aux \<Rightarrow>
               if spec_dir_excluded rules aux then {}
               else insert d (file_keys rules d (snd (snd t)))))"

text \<open>Every stored value is what \<open>get_data_information\<close> returns for its key.\<close>

definition snap_sound :: "os_env \<Rightarrow> snapshot \<Rightarrow> bool" where
  "snap_sound env m = (\<forall>k v. m k = Some v \<longrightarrow> get_data_information env k = Inr v)"

text \<open>
  A tree as a file system has it: in every directory the names are distinct, none is empty
  and none holds a separator.
\<close>

definition names_ok :: "string list \<Rightarrow> bool" where
  "names_ok ns = (distinct ns \<and> (\<forall>n \<in> set ns. n \<noteq> [] \<and> CHR ''/'' \<notin> set n))"

fun wf_tree :: "walk_tree \<Rightarrow> bool"
  and wf_subdirs :: "(string \<times> walk_tree option) list \<Rightarrow> bool" where
  "wf_tree (Listing dirs nondirs) = (names_ok (map fst dirs @ nondirs) \<and> wf_subdirs dirs)"
| "wf_subdirs [] = True"
| "wf_subdirs ((dirname, None) # dirs) = wf_subdirs dirs"
| "wf_subdirs ((dirname, Some t) # dirs) = (wf_tree t \<and> wf_subdirs dirs)"

definition wf_root :: "walk_tree option \<Rightarrow> bool" where
  "wf_root root = (case root of None \<Rightarrow> True | Some t \<Rightarrow> wf_tree t)"

section \<open>Example file systems\<close>

text \<open>
  The tree of the specification's example: \<open>/tmp/demo\<close> holds the directory \<open>bin\<close>
  (mode 0750, owner root, group wazuh), which holds the file \<open>run.sh\<close> (mode 0644). The
  environment knows some more paths, used by the examples below: an object whose status
  cannot be read, a file owned by a user id without a name, a symbolic link to \<open>bin\<close>, a
  symbolic link to that link, and a file of mode 0004.
\<close>

definition demo_tree :: walk_tree where
  "demo_tree = Listing [(''bin'', Some (Listing [] [''run.sh'']))] []"

definition demo_inodes :: "string \<Rightarrow> inode option" where
  "demo_inodes =
     [''/tmp/demo'' \<mapsto> Object Directory 493 0 0,
      ''/tmp/demo/bin'' \<mapsto> Object Directory 488 0 1,
      ''/tmp/demo/bin/run.sh'' \<mapsto> Object Regular 420 0 1,
      ''/tmp/demo/secret'' \<mapsto> NoAccess,
      ''/tmp/demo/orphan'' \<mapsto> Object Regular 420 1000 0,
      ''/tmp/demo/link'' \<mapsto> Symlink ''/tmp/demo/bin'',
      ''/tmp/demo/link2'' \<mapsto> Symlink ''/tmp/demo/link'',
      ''/tmp/demo/small'' \<mapsto> Object Regular 4 0 0]"

definition demo_env :: os_env where
  "demo_env = \<lparr>inodes = demo_inodes, passwd = [0 \<mapsto> ''root''],
               groupdb = [0 \<mapsto> ''root'', 1 \<mapsto> ''wazuh'']\<rparr>"

text \<open>A directory without entries, and directories holding one file.\<close>

definition empty_dir :: walk_tree where
  "empty_dir = Listing [] []"

definition secret_tree :: walk_tree where
  "secret_tree = Listing [] [''secret'']"

definition orphan_tree :: walk_tree where
  "orphan_tree = Listing [] [''orphan'']"

section \<open>Properties of the string functions and of the mode strings\<close>

lemmas stat_consts =
  S_IFLNK_def S_IFSOCK_def S_IFREG_def S_IFBLK_def S_IFDIR_def S_IFCHR_def S_IFIFO_def
  S_ISUID_def S_ISGID_def S_ISVTX_def S_IRUSR_def S_IWUSR_def S_IXUSR_def
  S_IRGRP_def S_IWGRP_def S_IXGRP_def S_IROTH_def S_IWOTH_def S_IXOTH_def

lemma length_get_filemode: "length (get_filemode m) = 10"
  by (simp add: get_filemode_def filemode_list_def)

text \<open>The example of the function's comment: 33204 gives \<open>-rw-rw-r--\<close>.\<close>

lemma get_filemode_33204: "get_filemode 33204 = ''-rw-rw-r--''"
  by (simp add: get_filemode_def filemode_list_def stat_consts)

lemma S_IMODE_mod: "S_IMODE m = m mod 4096"
proof -
  have "and m (mask 12) = take_bit 12 m"
    by (simp add: take_bit_eq_mask)
  then show ?thesis
    by (simp add: S_IMODE_def take_bit_eq_mod mask_eq_exp_minus_1)
qed

lemma py_split_not_Nil: "py_split c s \<noteq> []"
  by (induction s) (auto split: list.splits)

lemma py_split_append: "py_split c (a @ c # b) = py_split c a @ py_split c b"
  by (induction a) (auto split: list.splits simp: py_split_not_Nil)

lemmas mode_string_eval =
  mode_string_def S_IMODE_def oct_def octal_digits.simps replace_char_by_empty_def
  octal_digit_def last3_def

text \<open>
  What holds for every raw mode: the symbolic string has ten characters
  (\<open>length_get_filemode\<close>), the octal string holds octal digits only, and it has three of
  them unless the permission bits are below \<open>0o10\<close>, when it has two.
\<close>

lemma octal_digit_in: "d < 8 \<Longrightarrow> octal_digit d \<in> set ''01234567''"
  unfolding octal_digit_def by (rule nth_mem) simp

lemma octal_digits_set: "set (octal_digits n) \<subseteq> set ''01234567''"
proof (induction n rule: octal_digits.induct)
  case (1 n)
  show ?case
  proof (cases "n < 8")
    case True
    with octal_digit_in [of n] show ?thesis
      by (subst octal_digits.simps) simp
  next
    case False
    have "n mod 8 < 8" by simp
    from octal_digit_in [OF this] "1.IH" [OF False] False show ?thesis
      by (subst octal_digits.simps) simp
  qed
qed

lemma octal_digits_not_Nil: "octal_digits n \<noteq> []"
  by (subst octal_digits.simps) simp

lemma length_octal_digits:
  "length (octal_digits n) = 1 \<longleftrightarrow> n < 8"
proof (cases "n < 8")
  case True
  then show ?thesis by (subst octal_digits.simps) simp
next
  case False
  have "length (octal_digits (n div 8)) \<noteq> 0"
    using octal_digits_not_Nil by simp
  with False show ?thesis by (subst octal_digits.simps) simp
qed

lemma mode_str_eq:
  "replace_char_by_empty (CHR ''o'') (oct k) = CHR ''0'' # octal_digits k"
proof -
  have "CHR ''o'' \<notin> set (octal_digits k)"
    using octal_digits_set [of k] by auto
  then have "filter (\<lambda>x. x \<noteq> CHR ''o'') (octal_digits k) = octal_digits k"
    by (auto simp: filter_id_conv)
  then show ?thesis by (simp add: replace_char_by_empty_def oct_def)
qed

lemma length_mode_string:
  "length (mode_string m) = (if S_IMODE m < 8 then 2 else 3)"
proof -
  let ?ds = "octal_digits (S_IMODE m)"
  have ne: "length ?ds \<noteq> 0" using octal_digits_not_Nil by simp
  have one: "length ?ds = 1 \<longleftrightarrow> S_IMODE m < 8" by (rule length_octal_digits)
  show ?thesis
  proof (cases "length ?ds > 2")
    case True
    with one show ?thesis
      by (auto simp: mode_string_def mode_str_eq last3_def Let_def)
  next
    case False
    with ne have "length ?ds = 1 \<or> length ?ds = 2" by arith
    with one show ?thesis
      by (auto simp: mode_string_def mode_str_eq last3_def Let_def)
  qed
qed

lemma mode_string_digits: "set (mode_string m) \<subseteq> set ''01234567''"
proof -
  have "set (CHR ''0'' # octal_digits (S_IMODE m)) \<subseteq> set ''01234567''"
    using octal_digits_set [of "S_IMODE m"] by auto
  moreover have "set (last3 s) \<subseteq> set s" for s
    unfolding last3_def by (rule set_drop_subset)
  ultimately show ?thesis
    unfolding mode_string_def mode_str_eq Let_def by (auto simp del: set_simps)
qed

section \<open>The walk\<close>

lemma visit_dir_slash: "visit_dir env rules s (''/'', dns, fns) = Inl IndexError"
  by (simp add: visit_dir_def remove_ending_bar_chars_def)

text \<open>
  C9: for the root path \<open>/\<close>, naming an existing directory that can be listed, the walk
  returns no snapshot: the first directory visited is \<open>/\<close> itself, stripping its trailing
  separator leaves the empty string, and \<open>remove_initial_bar_chars\<close> raises \<open>IndexError\<close>
  on it, whatever the tree, the environment and the exclusion list.
\<close>

theorem root_slash_raises_IndexError:
  "get_current_items env (Some t) ''/'' ignore_folders = Inl IndexError"
  by (cases t) (simp add: get_current_items_def os_walk_def visit_dir_slash)

lemma check_ignored_Inr:
  "check_ignored flag (mset (py_split (CHR ''/'') aux)) rules = Inr b \<Longrightarrow>
   b = (if rules = [] then flag else spec_dir_excluded rules aux)"
proof (induction rules arbitrary: flag)
  case Nil
  then show ?case by simp
next
  case (Cons r rs)
  show ?case
  proof (cases "remove_initial_bar_chars r")
    case (Inl e)
    with Cons.prems show ?thesis by simp
  next
    case (Inr item)
    show ?thesis
    proof (cases "mset (py_split (CHR ''/'') item) \<subseteq># mset (py_split (CHR ''/'') aux)")
      case True
      with Inr Cons.prems show ?thesis
        by (simp add: spec_dir_excluded_def spec_rule_matches_def Diff_eq_empty_iff_mset)
    next
      case False
      with Inr Cons.prems
      have rec: "check_ignored False (mset (py_split (CHR ''/'') aux)) rs = Inr b"
        by (simp add: Diff_eq_empty_iff_mset)
      from False Inr have nm: "\<not> spec_rule_matches r aux"
        by (simp add: spec_rule_matches_def)
      from Cons.IH [OF rec] nm show ?thesis
        by (auto simp: spec_dir_excluded_def)
    qed
  qed
qed

lemma add_files_dom:
  "add_files env rules d m fns = Inr m' \<Longrightarrow> dom m' = dom m \<union> file_keys rules d fns"
proof (induction fns arbitrary: m)
  case Nil
  then show ?case by (simp add: file_keys_def)
next
  case (Cons f fns)
  let ?k = "d @ ''/'' @ f"
  have fk: "file_keys rules d (f # fns) =
        (if \<not> endswith ?k ''.pyc'' \<and> ?k \<notin> set rules then {?k} else {}) \<union> file_keys rules d fns"
    by (auto simp: file_keys_def)
  show ?case
  proof (cases "\<not> endswith ?k ''.pyc'' \<and> ?k \<notin> set rules")
    case True
    with Cons.prems obtain v where v: "get_data_information env ?k = Inr v"
      and rec: "add_files env rules d (m(?k \<mapsto> v)) fns = Inr m'"
      by (auto simp: Let_def split: sum.splits)
    from Cons.IH [OF rec] True fk show ?thesis by auto
  next
    case False
    with Cons.prems have rec: "add_files env rules d m fns = Inr m'"
      by (auto simp: Let_def)
    from Cons.IH [OF rec] False fk show ?thesis by auto
  qed
qed

lemma add_files_sound:
  "add_files env rules d m fns = Inr m' \<Longrightarrow> snap_sound env m \<Longrightarrow> snap_sound env m'"
proof (induction fns arbitrary: m)
  case Nil
  then show ?case by simp
next
  case (Cons f fns)
  let ?k = "d @ ''/'' @ f"
  show ?case
  proof (cases "\<not> endswith ?k ''.pyc'' \<and> ?k \<notin> set rules")
    case True
    with Cons.prems obtain v where v: "get_data_information env ?k = Inr v"
      and rec: "add_files env rules d (m(?k \<mapsto> v)) fns = Inr m'"
      by (auto simp: Let_def split: sum.splits)
    from Cons.prems(2) v have "snap_sound env (m(?k \<mapsto> v))"
      by (simp add: snap_sound_def)
    with Cons.IH [OF rec] show ?thesis .
  next
    case False
    with Cons.prems have rec: "add_files env rules d m fns = Inr m'"
      by (auto simp: Let_def)
    from Cons.IH [OF rec Cons.prems(2)] show ?thesis .
  qed
qed

lemma visit_dir_Inr:
  assumes "visit_dir env rules s t = Inr s'" and "rules = [] \<longrightarrow> \<not> snd s"
  shows "\<exists>d aux. remove_ending_bar_chars (fst t) = Inr d \<and> remove_initial_bar_chars d = Inr aux \<and>
           snd s' = spec_dir_excluded rules aux \<and>
           (snd s' \<longrightarrow> fst s' = fst s) \<and>
           (\<not> snd s' \<longrightarrow> (\<exists>v. get_data_information env d = Inr v \<and>
               add_files env rules d ((fst s)(d \<mapsto> v)) (snd (snd t)) = Inr (fst s')))"
proof -
  from assms(1) obtain d where d: "remove_ending_bar_chars (fst t) = Inr d"
    by (auto simp: visit_dir_def split: sum.splits)
  from assms(1) d obtain aux where aux: "remove_initial_bar_chars d = Inr aux"
    by (auto simp: visit_dir_def split: sum.splits)
  from assms(1) d aux obtain flag where
    flag: "check_ignored (snd s) (mset (py_split (CHR ''/'') aux)) rules = Inr flag"
    by (auto simp: visit_dir_def split: sum.splits)
  from check_ignored_Inr [OF flag] assms(2)
  have fl: "flag = spec_dir_excluded rules aux"
    by (auto simp: spec_dir_excluded_def)
  show ?thesis
  proof (cases flag)
    case True
    with assms(1) d aux flag have "s' = (fst s, flag)"
      by (simp add: visit_dir_def)
    with True d aux fl show ?thesis by auto
  next
    case False
    with assms(1) d aux flag obtain v m' where
      "get_data_information env d = Inr v"
      "add_files env rules d ((fst s)(d \<mapsto> v)) (snd (snd t)) = Inr m'"
      "s' = (m', flag)"
      by (auto simp: visit_dir_def split: sum.splits)
    with False d aux fl show ?thesis by auto
  qed
qed

lemma visit_dir_flag:
  assumes "visit_dir env rules s t = Inr s'" and "rules = [] \<longrightarrow> \<not> snd s"
  shows "rules = [] \<longrightarrow> \<not> snd s'"
  using visit_dir_Inr [OF assms] by (auto simp: spec_dir_excluded_def)

lemma visit_dir_dom:
  assumes "visit_dir env rules s t = Inr s'" and "rules = [] \<longrightarrow> \<not> snd s"
  shows "dom (fst s') = dom (fst s) \<union> dir_keys rules t"
proof -
  from visit_dir_Inr [OF assms] obtain d aux where
    d: "remove_ending_bar_chars (fst t) = Inr d" and aux: "remove_initial_bar_chars d = Inr aux"
    and fl: "snd s' = spec_dir_excluded rules aux"
    and ex: "snd s' \<longrightarrow> fst s' = fst s"
    and nex: "\<not> snd s' \<longrightarrow> (\<exists>v. get_data_information env d = Inr v \<and>
               add_files env rules d ((fst s)(d \<mapsto> v)) (snd (snd t)) = Inr (fst s'))"
    by blast
  show ?thesis
  proof (cases "snd s'")
    case True
    with ex fl d aux show ?thesis by (simp add: dir_keys_def)
  next
    case False
    with nex obtain v where
      "add_files env rules d ((fst s)(d \<mapsto> v)) (snd (snd t)) = Inr (fst s')" by blast
    from add_files_dom [OF this] False fl d aux show ?thesis
      by (auto simp: dir_keys_def)
  qed
qed

lemma visit_dir_sound:
  assumes "visit_dir env rules s t = Inr s'" and "rules = [] \<longrightarrow> \<not> snd s"
    and "snap_sound env (fst s)"
  shows "snap_sound env (fst s')"
proof -
  from visit_dir_Inr [OF assms(1,2)] obtain d aux where
    ex: "snd s' \<longrightarrow> fst s' = fst s"
    and nex: "\<not> snd s' \<longrightarrow> (\<exists>v. get_data_information env d = Inr v \<and>
               add_files env rules d ((fst s)(d \<mapsto> v)) (snd (snd t)) = Inr (fst s'))"
    by blast
  show ?thesis
  proof (cases "snd s'")
    case True
    with ex assms(3) show ?thesis by simp
  next
    case False
    with nex obtain v where v: "get_data_information env d = Inr v"
      and af: "add_files env rules d ((fst s)(d \<mapsto> v)) (snd (snd t)) = Inr (fst s')" by blast
    from v assms(3) have "snap_sound env ((fst s)(d \<mapsto> v))"
      by (simp add: snap_sound_def)
    from add_files_sound [OF af this] show ?thesis .
  qed
qed

lemma walk_loop_inv:
  "walk_loop env rules s ts = Inr s' \<Longrightarrow> rules = [] \<longrightarrow> \<not> snd s \<Longrightarrow>
   (rules = [] \<longrightarrow> \<not> snd s') \<and>
   dom (fst s') = dom (fst s) \<union> (\<Union>t \<in> set ts. dir_keys rules t) \<and>
   (snap_sound env (fst s) \<longrightarrow> snap_sound env (fst s'))"
proof (induction ts arbitrary: s)
  case Nil
  then show ?case by simp
next
  case (Cons t ts)
  from Cons.prems(1) obtain s1 where v: "visit_dir env rules s t = Inr s1"
    and rec: "walk_loop env rules s1 ts = Inr s'"
    by (auto split: sum.splits)
  note f1 = visit_dir_flag [OF v Cons.prems(2)]
  note d1 = visit_dir_dom [OF v Cons.prems(2)]
  from Cons.IH [OF rec f1] d1 visit_dir_sound [OF v Cons.prems(2)]
  show ?case by auto
qed

lemma walk_loop_append:
  "walk_loop env rules s (xs @ ys) =
     (case walk_loop env rules s xs of Inl e \<Rightarrow> Inl e | Inr s1 \<Rightarrow> walk_loop env rules s1 ys)"
  by (induction xs arbitrary: s) (auto split: sum.splits)

lemma get_current_items_Inr:
  "get_current_items env root path rules = Inr snap \<Longrightarrow>
   \<exists>fl. walk_loop env rules (Map.empty, False) (os_walk path root) = Inr (snap, fl)"
  by (auto simp: get_current_items_def split: sum.splits)

lemma get_current_items_dom:
  assumes "get_current_items env root path rules = Inr snap"
  shows "dom snap = (\<Union>t \<in> set (os_walk path root). dir_keys rules t)"
proof -
  from get_current_items_Inr [OF assms] obtain fl where
    "walk_loop env rules (Map.empty, False) (os_walk path root) = Inr (snap, fl)" ..
  from walk_loop_inv [OF this] show ?thesis by simp
qed

lemma get_current_items_sound:
  assumes "get_current_items env root path rules = Inr snap"
  shows "snap_sound env snap"
proof -
  from get_current_items_Inr [OF assms] obtain fl where
    "walk_loop env rules (Map.empty, False) (os_walk path root) = Inr (snap, fl)" ..
  from walk_loop_inv [OF this] show ?thesis by (simp add: snap_sound_def)
qed


text \<open>The specification's example: the rule \<open>a/b\<close> matches \<open>a/b/c\<close> and \<open>a/c/b\<close> alike.\<close>

lemma rule_a_b_matches_both:
  "spec_rule_matches ''a/b'' ''a/b/c'' \<and> spec_rule_matches ''a/b'' ''a/c/b'' \<and>
   \<not> spec_rule_matches ''a/b'' ''a/c''"
  by (simp add: spec_rule_matches_def)

lemma os_walk_empty_dir: "os_walk p (Some empty_dir) = [(p, [], [])]"
  by (simp add: os_walk_def empty_dir_def)



section \<open>The example file system\<close>

lemma demo_passwd: "passwd demo_env = [0 \<mapsto> ''root'']"
  and demo_groupdb: "groupdb demo_env = [0 \<mapsto> ''root'', 1 \<mapsto> ''wazuh'']"
  and demo_inodes_env: "inodes demo_env = demo_inodes"
  by (simp_all add: demo_env_def)

lemma demo_stat_root:
  "os_stat demo_env ''/tmp/demo'' = Inr \<lparr>st_mode = 16877, st_uid = 0, st_gid = 0\<rparr>"
  by (simp add: os_stat_def demo_inodes_env demo_inodes_def follow.simps stat_consts)

lemma demo_stat_bin:
  "os_stat demo_env ''/tmp/demo/bin'' = Inr \<lparr>st_mode = 16872, st_uid = 0, st_gid = 1\<rparr>"
  by (simp add: os_stat_def demo_inodes_env demo_inodes_def follow.simps stat_consts)

lemma demo_stat_run:
  "os_stat demo_env ''/tmp/demo/bin/run.sh'' = Inr \<lparr>st_mode = 33188, st_uid = 0, st_gid = 1\<rparr>"
  by (simp add: os_stat_def demo_inodes_env demo_inodes_def follow.simps stat_consts)

lemma demo_stat_secret: "os_stat demo_env ''/tmp/demo/secret'' = Inl PermissionError"
  by (simp add: os_stat_def demo_inodes_env demo_inodes_def follow.simps)

lemma demo_stat_gone: "os_stat demo_env ''/tmp/demo/gone'' = Inl FileNotFoundError"
  by (simp add: os_stat_def demo_inodes_env demo_inodes_def follow.simps)

lemma demo_stat_orphan:
  "os_stat demo_env ''/tmp/demo/orphan'' = Inr \<lparr>st_mode = 33188, st_uid = 1000, st_gid = 0\<rparr>"
  by (simp add: os_stat_def demo_inodes_env demo_inodes_def follow.simps stat_consts)

lemma demo_stat_link:
  "os_stat demo_env ''/tmp/demo/link'' = Inr \<lparr>st_mode = 16872, st_uid = 0, st_gid = 1\<rparr>"
  by (simp add: os_stat_def demo_inodes_env demo_inodes_def follow.simps stat_consts)

lemmas gdi_eval =
  get_data_information_def get_data_information_body_def getpwuid_def getgrgid_def
  demo_passwd demo_groupdb os_path_isdir_def S_ISDIR_def get_filemode_def filemode_list_def
  stat_consts mode_string_eval

lemma demo_gdi_root:
  "get_data_information demo_env ''/tmp/demo'' =
     Inr (Some \<lparr>entry_group = Some ''root'', entry_mode = Some ''755'',
                 entry_type = Some ''directory'', entry_user = Some ''root'',
                 entry_prot = Some ''drwxr-xr-x''\<rparr>)"
  by (simp add: gdi_eval demo_stat_root)

lemma demo_gdi_bin:
  "get_data_information demo_env ''/tmp/demo/bin'' =
     Inr (Some \<lparr>entry_group = Some ''wazuh'', entry_mode = Some ''750'',
                 entry_type = Some ''directory'', entry_user = Some ''root'',
                 entry_prot = Some ''drwxr-x---''\<rparr>)"
  by (simp add: gdi_eval demo_stat_bin)

lemma demo_gdi_run:
  "get_data_information demo_env ''/tmp/demo/bin/run.sh'' =
     Inr (Some \<lparr>entry_group = Some ''wazuh'', entry_mode = Some ''644'',
                 entry_type = Some ''file'', entry_user = Some ''root'',
                 entry_prot = Some ''-rw-r--r--''\<rparr>)"
  by (simp add: gdi_eval demo_stat_run)

lemma demo_gdi_link:
  "get_data_information demo_env ''/tmp/demo/link'' =
     Inr (Some \<lparr>entry_group = Some ''wazuh'', entry_mode = Some ''750'',
                 entry_type = Some ''directory'', entry_user = Some ''root'',
                 entry_prot = Some ''drwxr-x---''\<rparr>)"
  by (simp add: gdi_eval demo_stat_link)

lemma demo_gdi_secret: "get_data_information demo_env ''/tmp/demo/secret'' = Inr None"
  by (simp add: gdi_eval demo_stat_secret)

lemma demo_gdi_gone: "get_data_information demo_env ''/tmp/demo/gone'' = Inr (Some none_entry)"
  by (simp add: gdi_eval demo_stat_gone)

lemma demo_gdi_orphan: "get_data_information demo_env ''/tmp/demo/orphan'' = Inl KeyError"
  by (simp add: gdi_eval demo_stat_orphan)

lemma demo_stat_small:
  "os_stat demo_env ''/tmp/demo/small'' = Inr \<lparr>st_mode = 32772, st_uid = 0, st_gid = 0\<rparr>"
  by (simp add: os_stat_def demo_inodes_env demo_inodes_def follow.simps stat_consts)

text \<open>
  C5, at a failing input: a regular file of mode 0004 has \<open>st_mode = 0o100004 = 32772\<close>;
  \<open>oct(4)\<close> is \<open>0o4\<close>, so the mode string is \<open>04\<close>, two characters and not three, and that
  is the \<open>mode\<close> of the entry that \<open>get_data_information\<close> returns for such a file.
\<close>

theorem mode_string_0004_has_two_digits:
  "mode_string 32772 = ''04'' \<and> length (mode_string 32772) = 2 \<and>
   get_data_information demo_env ''/tmp/demo/small'' =
     Inr (Some \<lparr>entry_group = Some ''root'', entry_mode = Some ''04'',
                 entry_type = Some ''file'', entry_user = Some ''root'',
                 entry_prot = Some ''-------r--''\<rparr>)"
  by (simp add: gdi_eval demo_stat_small)

lemma demo_walk:
  "os_walk ''/tmp/demo'' (Some demo_tree) =
     [(''/tmp/demo'', [''bin''], []), (''/tmp/demo/bin'', [], [''run.sh''])]"
  by (simp add: os_walk_def demo_tree_def path_join_def)

lemmas walk_eval = get_current_items_def visit_dir_def remove_ending_bar_chars_def endswith_def

lemma demo_all:
  "get_current_items demo_env (Some demo_tree) ''/tmp/demo'' [] =
     Inr [''/tmp/demo'' \<mapsto> Some \<lparr>entry_group = Some ''root'', entry_mode = Some ''755'',
                 entry_type = Some ''directory'', entry_user = Some ''root'',
                 entry_prot = Some ''drwxr-xr-x''\<rparr>,
          ''/tmp/demo/bin'' \<mapsto> Some \<lparr>entry_group = Some ''wazuh'', entry_mode = Some ''750'',
                 entry_type = Some ''directory'', entry_user = Some ''root'',
                 entry_prot = Some ''drwxr-x---''\<rparr>,
          ''/tmp/demo/bin/run.sh'' \<mapsto> Some \<lparr>entry_group = Some ''wazuh'', entry_mode = Some ''644'',
                 entry_type = Some ''file'', entry_user = Some ''root'',
                 entry_prot = Some ''-rw-r--r--''\<rparr>]"
  by (simp add: walk_eval demo_walk demo_gdi_root demo_gdi_bin demo_gdi_run)

text \<open>
  C2, as stated, fails: on the example tree with the exclusion list \<open>["/tmp/demo/bin"]\<close> the
  snapshot is not empty.
\<close>

theorem demo_excluding_bin_not_empty:
  "get_current_items demo_env (Some demo_tree) ''/tmp/demo'' [''/tmp/demo/bin''] \<noteq> Inr Map.empty"
proof -
  have "get_current_items demo_env (Some demo_tree) ''/tmp/demo'' [''/tmp/demo/bin''] =
     Inr [''/tmp/demo'' \<mapsto> Some \<lparr>entry_group = Some ''root'', entry_mode = Some ''755'',
                 entry_type = Some ''directory'', entry_user = Some ''root'',
                 entry_prot = Some ''drwxr-xr-x''\<rparr>]"
    by (simp add: walk_eval demo_walk demo_gdi_root)
  moreover have "[''/tmp/demo'' \<mapsto> v] \<noteq> Map.empty" for v :: "entry option"
    by simp
  ultimately show ?thesis by simp
qed

text \<open>
  C2, amended: on the example tree with the exclusion list \<open>["/tmp/demo/bin"]\<close> the
  snapshot has exactly one entry, for the root directory \<open>/tmp/demo\<close> itself, holding what
  \<open>get_data_information\<close> returns for it; there is no entry for \<open>/tmp/demo/bin\<close> and none
  for \<open>/tmp/demo/bin/run.sh\<close>. (The rule's components tmp, demo, bin are not all among the
  root's components tmp, demo.)
\<close>

theorem demo_excluding_bin_keeps_root:
  "get_current_items env (Some demo_tree) ''/tmp/demo'' [''/tmp/demo/bin''] =
     (case get_data_information env ''/tmp/demo'' of
        Inl e \<Rightarrow> Inl e
      | Inr v \<Rightarrow> Inr [''/tmp/demo'' \<mapsto> v])"
  by (simp add: walk_eval demo_walk split: sum.splits)

theorem demo_excluding_bin_keeps_root_witness:
  "get_current_items demo_env (Some demo_tree) ''/tmp/demo'' [''/tmp/demo/bin''] =
     Inr [''/tmp/demo'' \<mapsto> Some \<lparr>entry_group = Some ''root'', entry_mode = Some ''755'',
                 entry_type = Some ''directory'', entry_user = Some ''root'',
                 entry_prot = Some ''drwxr-xr-x''\<rparr>]"
  using demo_excluding_bin_keeps_root [of demo_env] by (simp add: demo_gdi_root)

section \<open>Failures of the inspection\<close>

lemma description_None: "description None = sentinel_entry"
  by (simp add: description_def sentinel_entry_def)

lemma description_Some: "description (Some d) = d"
  by (simp add: description_def)

lemma none_entry_not_sentinel: "none_entry \<noteq> sentinel_entry"
  by (simp add: none_entry_def sentinel_entry_def)

lemma gdi_FileNotFoundError:
  "os_stat env item = Inl FileNotFoundError \<Longrightarrow>
   get_data_information env item = Inr (Some none_entry)"
  by (simp add: get_data_information_def get_data_information_body_def)

lemma gdi_PermissionError:
  "os_stat env item = Inl PermissionError \<Longrightarrow> get_data_information env item = Inr None"
  by (simp add: get_data_information_def get_data_information_body_def)

lemma gdi_KeyError:
  assumes "os_stat env item = Inr st"
    and "passwd env (st_uid st) = None \<or> groupdb env (st_gid st) = None"
  shows "get_data_information env item = Inl KeyError"
  using assms
  by (auto simp: get_data_information_def get_data_information_body_def getpwuid_def
      getgrgid_def split: option.splits)

lemma walk_key_value:
  assumes "get_current_items env root path rules = Inr snap"
    and "t \<in> set (os_walk path root)" and "k \<in> dir_keys rules t"
  shows "\<exists>v. snap k = Some v \<and> get_data_information env k = Inr v"
proof -
  from get_current_items_dom [OF assms(1)] assms(2,3) have "k \<in> dom snap" by blast
  then obtain v where v: "snap k = Some v" by blast
  with get_current_items_sound [OF assms(1)] have "get_data_information env k = Inr v"
    by (simp add: snap_sound_def)
  with v show ?thesis by blast
qed

text \<open>
  C3, as stated, fails: \<open>/tmp/demo/gone\<close> does not exist in the example environment; the
  entry returned for it holds \<open>None\<close> in its five fields, which is not the one-character
  placeholder, and the entry point's description of it leaves them so.
\<close>

theorem vanished_path_is_not_sentinel:
  "os_stat demo_env ''/tmp/demo/gone'' = Inl FileNotFoundError \<and>
   get_data_information demo_env ''/tmp/demo/gone'' = Inr (Some none_entry) \<and>
   none_entry \<noteq> sentinel_entry \<and>
   description (Some none_entry) \<noteq> sentinel_entry"
  by (simp add: demo_stat_gone demo_gdi_gone description_Some none_entry_not_sentinel)

text \<open>
  C3, amended: for every path whose status lookup fails because the target does not exist
  when it is inspected, \<open>get_data_information\<close> returns, without raising, an entry whose five
  fields (group, mode, type, user, prot) are all \<open>None\<close>, and the entry point's description
  keeps the five \<open>None\<close>; the placeholder \<open>'-'\<close> is not used for such a path.
\<close>

theorem vanished_path_gives_five_None:
  assumes "os_stat env item = Inl FileNotFoundError"
  shows "get_data_information env item =
           Inr (Some \<lparr>entry_group = None, entry_mode = None, entry_type = None,
                       entry_user = None, entry_prot = None\<rparr>) \<and>
         description (Some \<lparr>entry_group = None, entry_mode = None, entry_type = None,
                             entry_user = None, entry_prot = None\<rparr>) =
           \<lparr>entry_group = None, entry_mode = None, entry_type = None,
            entry_user = None, entry_prot = None\<rparr>"
  using gdi_FileNotFoundError [OF assms] by (simp add: none_entry_def description_Some)

theorem vanished_path_gives_five_None_witness:
  "os_stat demo_env ''/tmp/demo/gone'' = Inl FileNotFoundError \<and>
   get_data_information demo_env ''/tmp/demo/gone'' =
           Inr (Some \<lparr>entry_group = None, entry_mode = None, entry_type = None,
                       entry_user = None, entry_prot = None\<rparr>)"
  using vanished_path_gives_five_None [OF demo_stat_gone] demo_stat_gone by simp

lemma secret_walk: "os_walk ''/tmp/demo'' (Some secret_tree) = [(''/tmp/demo'', [], [''secret''])]"
  by (simp add: os_walk_def secret_tree_def)

lemma orphan_walk: "os_walk ''/tmp/demo'' (Some orphan_tree) = [(''/tmp/demo'', [], [''orphan''])]"
  by (simp add: os_walk_def orphan_tree_def)

lemma secret_snapshot:
  "get_current_items demo_env (Some secret_tree) ''/tmp/demo'' [] =
     Inr [''/tmp/demo'' \<mapsto> Some \<lparr>entry_group = Some ''root'', entry_mode = Some ''755'',
                 entry_type = Some ''directory'', entry_user = Some ''root'',
                 entry_prot = Some ''drwxr-xr-x''\<rparr>,
          ''/tmp/demo/secret'' \<mapsto> None]"
  by (simp add: walk_eval secret_walk demo_gdi_root demo_gdi_secret)

lemma demo_dir_keys:
  "dir_keys [] (''/tmp/demo'', dns, [f]) =
     (if endswith (''/tmp/demo/'' @ f) ''.pyc'' then {''/tmp/demo''}
      else {''/tmp/demo'', ''/tmp/demo/'' @ f})"
  by (auto simp: dir_keys_def remove_ending_bar_chars_def spec_dir_excluded_def file_keys_def)

text \<open>
  C4, as stated, fails: the status of \<open>/tmp/demo/secret\<close> cannot be read for lack of
  permission, and the path is a key of the snapshot returned, bound to \<open>None\<close>.
\<close>

theorem denied_path_is_a_key:
  "os_stat demo_env ''/tmp/demo/secret'' = Inl PermissionError \<and>
   get_current_items demo_env (Some secret_tree) ''/tmp/demo'' [] =
     Inr [''/tmp/demo'' \<mapsto> Some \<lparr>entry_group = Some ''root'', entry_mode = Some ''755'',
                 entry_type = Some ''directory'', entry_user = Some ''root'',
                 entry_prot = Some ''drwxr-xr-x''\<rparr>,
          ''/tmp/demo/secret'' \<mapsto> None] \<and>
   ''/tmp/demo/secret'' \<in> dom [''/tmp/demo'' \<mapsto> Some \<lparr>entry_group = Some ''root'', entry_mode = Some ''755'',
                 entry_type = Some ''directory'', entry_user = Some ''root'',
                 entry_prot = Some ''drwxr-xr-x''\<rparr>,
          ''/tmp/demo/secret'' \<mapsto> None]"
  by (simp add: demo_stat_secret secret_snapshot)

text \<open>
  C4, amended: for every path that a round of the walk stores (the path of a directory that
  no rule matches, or of one of its files that is neither a \<open>.pyc\<close> file nor listed among the
  rules) and whose status read fails with a permission-denied condition,
  \<open>get_data_information\<close> returns \<open>None\<close> in place of a record, and the path stays a key of the
  snapshot returned, bound to \<open>None\<close>; the entry point describes it with \<open>'-'\<close> in the five
  fields.
\<close>

theorem denied_path_is_bound_to_None:
  assumes "get_current_items env root path rules = Inr snap"
    and "t \<in> set (os_walk path root)" and "k \<in> dir_keys rules t"
    and "os_stat env k = Inl PermissionError"
  shows "get_data_information env k = Inr None \<and> snap k = Some None \<and>
         description None = sentinel_entry"
  using walk_key_value [OF assms(1-3)] gdi_PermissionError [OF assms(4)]
  by (auto simp: description_None)

theorem denied_path_is_bound_to_None_witness:
  "get_current_items demo_env (Some secret_tree) ''/tmp/demo'' [] =
     Inr [''/tmp/demo'' \<mapsto> Some \<lparr>entry_group = Some ''root'', entry_mode = Some ''755'',
                 entry_type = Some ''directory'', entry_user = Some ''root'',
                 entry_prot = Some ''drwxr-xr-x''\<rparr>,
          ''/tmp/demo/secret'' \<mapsto> None] \<and>
   (''/tmp/demo'', [], [''secret'']) \<in> set (os_walk ''/tmp/demo'' (Some secret_tree)) \<and>
   ''/tmp/demo/secret'' \<in> dir_keys [] (''/tmp/demo'', [], [''secret'']) \<and>
   os_stat demo_env ''/tmp/demo/secret'' = Inl PermissionError \<and>
   get_data_information demo_env ''/tmp/demo/secret'' = Inr None \<and>
   [''/tmp/demo'' \<mapsto> Some \<lparr>entry_group = Some ''root'', entry_mode = Some ''755'',
                 entry_type = Some ''directory'', entry_user = Some ''root'',
                 entry_prot = Some ''drwxr-xr-x''\<rparr>,
          ''/tmp/demo/secret'' \<mapsto> None] ''/tmp/demo/secret'' = Some None"
proof -
  have t: "(''/tmp/demo'', [], [''secret'']) \<in> set (os_walk ''/tmp/demo'' (Some secret_tree))"
    by (simp add: secret_walk)
  have k: "''/tmp/demo/secret'' \<in> dir_keys [] (''/tmp/demo'', [], [''secret''])"
    by (simp add: demo_dir_keys endswith_def)
  from denied_path_is_bound_to_None [OF secret_snapshot t k demo_stat_secret]
    secret_snapshot t k demo_stat_secret
  show ?thesis by blast
qed

text \<open>
  C7, as stated, fails: \<open>/tmp/demo/orphan\<close> is owned by the user id 1000, which has no name;
  \<open>get_data_information\<close> raises \<open>KeyError\<close> for it, and so does the walk over a directory
  that holds it.
\<close>

theorem unresolved_owner_raises:
  "os_stat demo_env ''/tmp/demo/orphan'' = Inr \<lparr>st_mode = 33188, st_uid = 1000, st_gid = 0\<rparr> \<and>
   passwd demo_env 1000 = None \<and>
   get_data_information demo_env ''/tmp/demo/orphan'' = Inl KeyError \<and>
   get_current_items demo_env (Some orphan_tree) ''/tmp/demo'' [] = Inl KeyError"
  by (simp add: demo_stat_orphan demo_passwd demo_gdi_orphan walk_eval orphan_walk demo_gdi_root)

text \<open>
  C7, amended: for every path whose status is read and whose owner id or group id has no
  name, \<open>get_data_information\<close> returns no entry: it raises \<open>KeyError\<close>, which none of its
  handlers catches. When a round of the walk stores such a path, the walk returns no
  snapshot either, it ends with an exception.
\<close>

theorem unresolved_id_raises_KeyError:
  assumes "os_stat env k = Inr st"
    and "passwd env (st_uid st) = None \<or> groupdb env (st_gid st) = None"
  shows "get_data_information env k = Inl KeyError \<and>
         (t \<in> set (os_walk path root) \<and> k \<in> dir_keys rules t \<longrightarrow>
            (\<exists>e. get_current_items env root path rules = Inl e))"
proof -
  note ke = gdi_KeyError [OF assms]
  have "\<exists>e. get_current_items env root path rules = Inl e"
    if t: "t \<in> set (os_walk path root)" and k: "k \<in> dir_keys rules t"
  proof (cases "get_current_items env root path rules")
    case (Inl e)
    then show ?thesis by blast
  next
    case (Inr snap)
    from walk_key_value [OF Inr t k] ke show ?thesis by auto
  qed
  with ke show ?thesis by blast
qed

theorem unresolved_id_raises_KeyError_witness:
  "os_stat demo_env ''/tmp/demo/orphan'' = Inr \<lparr>st_mode = 33188, st_uid = 1000, st_gid = 0\<rparr> \<and>
   passwd demo_env 1000 = None \<and>
   (''/tmp/demo'', [], [''orphan'']) \<in> set (os_walk ''/tmp/demo'' (Some orphan_tree)) \<and>
   ''/tmp/demo/orphan'' \<in> dir_keys [] (''/tmp/demo'', [], [''orphan'']) \<and>
   get_data_information demo_env ''/tmp/demo/orphan'' = Inl KeyError \<and>
   (\<exists>e. get_current_items demo_env (Some orphan_tree) ''/tmp/demo'' [] = Inl e)"
proof -
  have p: "passwd demo_env 1000 = None"
    by (simp add: demo_passwd)
  then have p': "passwd demo_env (st_uid \<lparr>st_mode = 33188, st_uid = 1000, st_gid = 0\<rparr>) = None \<or>
      groupdb demo_env (st_gid \<lparr>st_mode = 33188, st_uid = 1000, st_gid = 0\<rparr>) = None"
    by simp
  have t: "(''/tmp/demo'', [], [''orphan'']) \<in> set (os_walk ''/tmp/demo'' (Some orphan_tree))"
    by (simp add: orphan_walk)
  have k: "''/tmp/demo/orphan'' \<in> dir_keys [] (''/tmp/demo'', [], [''orphan''])"
    by (simp add: demo_dir_keys endswith_def)
  from unresolved_id_raises_KeyError [OF demo_stat_orphan p',
      of "(''/tmp/demo'', [], [''orphan''])" "''/tmp/demo''" "Some orphan_tree" "[]"]
    demo_stat_orphan p t k
  show ?thesis by blast
qed

section \<open>Symbolic links\<close>

lemma and_push_bit_right:
  "and x (push_bit k m) = push_bit k (and (drop_bit k x) m)" for x m :: nat
  by (rule bit_eqI) (auto simp: bit_and_iff bit_push_bit_iff bit_drop_bit_eq)

lemma and_file_type_bits:
  "and x (4096 * m) = 4096 * and (x div 4096) m" for x m :: nat
  using and_push_bit_right [of x 12 m] by (simp add: push_bit_eq_mult drop_bit_eq_div mult.commute)

lemma ifmt_div: "(ifmt k + perm mod 4096) div 4096 = ifmt k div 4096"
  by (cases k) (simp_all add: stat_consts)

lemma object_mode_not_link: "and (ifmt k + perm mod 4096) S_IFLNK \<noteq> S_IFLNK"
proof -
  have "and (ifmt k + perm mod 4096) (4096 * 10) = 4096 * and (ifmt k div 4096) 10"
    by (simp only: and_file_type_bits ifmt_div)
  moreover have "and (ifmt k div 4096) 10 \<noteq> (10::nat)"
    by (cases k) (simp_all add: stat_consts)
  ultimately show ?thesis by (simp add: S_IFLNK_def)
qed

lemma directory_mode_isdir: "S_ISDIR (S_IFDIR + perm mod 4096)"
proof -
  have "and (ifmt Directory + perm mod 4096) (4096 * 15) = 4096 * and (ifmt Directory div 4096) 15"
    by (simp only: and_file_type_bits ifmt_div)
  then show ?thesis by (simp add: S_ISDIR_def stat_consts)
qed

lemma follow_Inr:
  "follow n fs p = Inr st \<Longrightarrow>
   \<exists>k perm uid gid. st = \<lparr>st_mode = ifmt k + perm mod 4096, st_uid = uid, st_gid = gid\<rparr>"
proof (induction n arbitrary: p)
  case 0
  show ?case
  proof (cases "fs p")
    case None
    with "0.prems" show ?thesis by (simp add: follow.simps)
  next
    case (Some i)
    with "0.prems" show ?thesis by (cases i) (auto simp: follow.simps)
  qed
next
  case (Suc n)
  show ?case
  proof (cases "fs p")
    case None
    with Suc.prems show ?thesis by (simp add: follow.simps)
  next
    case (Some i)
    show ?thesis
    proof (cases i)
      case (Object k perm uid gid)
      with Some Suc.prems show ?thesis by (auto simp: follow.simps)
    next
      case (Symlink target)
      with Some Suc.prems have "follow n fs target = Inr st" by (simp add: follow.simps)
      then show ?thesis by (rule Suc.IH)
    next
      case NoAccess
      with Some Suc.prems show ?thesis by (simp add: follow.simps)
    qed
  qed
qed

lemma follow_not_link:
  assumes "follow n fs p = Inr st"
  shows "and (st_mode st) S_IFLNK \<noteq> S_IFLNK"
proof -
  from follow_Inr [OF assms] obtain k perm where "st_mode st = ifmt k + perm mod 4096"
    by auto
  then show ?thesis by (simp only: object_mode_not_link not_False_eq_True)
qed

lemma first_match_range: "first_match m items \<in> insert (CHR ''-'') (snd ` set items)"
  by (induction m items rule: first_match.induct) auto

lemma get_filemode_first_not_l:
  assumes "and m S_IFLNK \<noteq> S_IFLNK"
  shows "hd (get_filemode m) \<noteq> CHR ''l''"
proof -
  have "hd (get_filemode m) =
      first_match m [(S_IFREG, CHR ''-''), (S_IFBLK, CHR ''b''),
        (S_IFDIR, CHR ''d''), (S_IFCHR, CHR ''c''), (S_IFIFO, CHR ''p'')]"
    using assms by (simp add: get_filemode_def filemode_list_def)
  with first_match_range [of m "[(S_IFREG, CHR ''-''), (S_IFBLK, CHR ''b''),
        (S_IFDIR, CHR ''d''), (S_IFCHR, CHR ''c''), (S_IFIFO, CHR ''p'')]"]
  show ?thesis by auto
qed

lemma gdi_body_Inr:
  assumes "get_data_information_body env item = Inr e"
  shows "\<exists>st. os_stat env item = Inr st \<and>
            entry_prot e = Some (get_filemode (st_mode st)) \<and>
            entry_type e = Some (if S_ISDIR (st_mode st) then ''directory'' else ''file'')"
proof (cases "os_stat env item")
  case (Inl x)
  with assms show ?thesis by (simp add: get_data_information_body_def)
next
  case (Inr st)
  show ?thesis
  proof (cases "getpwuid env (st_uid st)")
    case (Inl x)
    with Inr assms show ?thesis by (simp add: get_data_information_body_def)
  next
    case u: (Inr user)
    show ?thesis
    proof (cases "getgrgid env (st_gid st)")
      case (Inl x)
      with Inr u assms show ?thesis by (simp add: get_data_information_body_def)
    next
      case g: (Inr grp)
      from assms have "e = \<lparr>entry_group = Some grp,
          entry_mode = Some (mode_string (st_mode st)),
          entry_type = Some (if os_path_isdir env item then ''directory'' else ''file''),
          entry_user = Some user,
          entry_prot = Some (get_filemode (st_mode st))\<rparr>"
        by (simp add: get_data_information_body_def Inr u g)
      moreover have "os_path_isdir env item = S_ISDIR (st_mode st)"
        by (simp add: os_path_isdir_def Inr)
      ultimately show ?thesis using Inr by simp
    qed
  qed
qed

lemma gdi_Some_stat:
  assumes "get_data_information env item = Inr (Some e)" and "entry_prot e = Some s"
  shows "\<exists>st. os_stat env item = Inr st \<and> s = get_filemode (st_mode st) \<and>
            entry_type e = Some (if S_ISDIR (st_mode st) then ''directory'' else ''file'')"
proof (cases "get_data_information_body env item")
  case (Inl x)
  with assms(1) have "e = none_entry"
    by (simp add: get_data_information_def split: if_splits)
  with assms(2) show ?thesis by (simp add: none_entry_def)
next
  case (Inr d)
  with assms(1) have "d = e" by (simp add: get_data_information_def)
  with Inr gdi_body_Inr [of env item e] assms(2) show ?thesis by auto
qed

lemma gdi_stat_cong:
  "os_stat env p = os_stat env q \<Longrightarrow> get_data_information env p = get_data_information env q"
  by (simp add: get_data_information_def get_data_information_body_def os_path_isdir_def)

lemma os_stat_symlink:
  assumes "inodes env p = Some (Symlink target)"
    and "inodes env target = Some (Object k perm uid gid)"
  shows "os_stat env p = os_stat env target"
    and "os_stat env target = Inr \<lparr>st_mode = ifmt k + perm mod 4096, st_uid = uid, st_gid = gid\<rparr>"
proof -
  have "follow n (inodes env) target =
      Inr \<lparr>st_mode = ifmt k + perm mod 4096, st_uid = uid, st_gid = gid\<rparr>" for n
    using assms(2) by (subst follow.simps) simp
  moreover have "follow 40 (inodes env) p = follow 39 (inodes env) target"
    using assms(1) by (subst follow.simps) simp
  ultimately show "os_stat env p = os_stat env target"
    and "os_stat env target = Inr \<lparr>st_mode = ifmt k + perm mod 4096, st_uid = uid, st_gid = gid\<rparr>"
    by (simp_all add: os_stat_def)
qed

lemma follow_not_symlink:
  assumes "\<And>t. fs q \<noteq> Some (Symlink t)"
  shows "follow n fs q = follow m fs q"
proof (cases "fs q")
  case None
  then show ?thesis by (simp add: follow.simps [of n] follow.simps [of m])
next
  case (Some i)
  show ?thesis
  proof (cases i)
    case (Object k perm uid gid)
    with Some show ?thesis by (simp add: follow.simps [of n] follow.simps [of m])
  next
    case (Symlink t)
    with Some assms [of t] show ?thesis by simp
  next
    case NoAccess
    with Some show ?thesis by (simp add: follow.simps [of n] follow.simps [of m])
  qed
qed

lemma chain_end_Some:
  "chain_end n fs p = Some q \<Longrightarrow>
   (\<forall>t. fs q \<noteq> Some (Symlink t)) \<and> follow n fs p = follow n fs q"
proof (induction n arbitrary: p)
  case 0
  show ?case
  proof (cases "fs p")
    case None
    with "0.prems" show ?thesis by (simp add: chain_end.simps)
  next
    case (Some i)
    with "0.prems" show ?thesis by (cases i) (auto simp: chain_end.simps)
  qed
next
  case (Suc n)
  show ?case
  proof (cases "fs p")
    case None
    with Suc.prems show ?thesis by (simp add: chain_end.simps)
  next
    case (Some i)
    show ?thesis
    proof (cases i)
      case (Object k perm uid gid)
      with Some Suc.prems show ?thesis by (auto simp: chain_end.simps)
    next
      case (Symlink target)
      with Some Suc.prems have ce: "chain_end n fs target = Some q"
        by (simp add: chain_end.simps)
      from Suc.IH [OF ce] have nl: "\<forall>t. fs q \<noteq> Some (Symlink t)"
        and f: "follow n fs target = follow n fs q" by simp_all
      from Some Symlink have "follow (Suc n) fs p = follow n fs target"
        by (simp add: follow.simps [of "Suc n"])
      also note f
      also from nl have "follow n fs q = follow (Suc n) fs q"
        by (intro follow_not_symlink) simp
      finally show ?thesis using nl by simp
    next
      case NoAccess
      with Some Suc.prems show ?thesis by (auto simp: chain_end.simps)
    qed
  qed
qed

lemma chain_end_None:
  "chain_end n fs p = None \<Longrightarrow> follow n fs p = Inl OSError_other"
proof (induction n arbitrary: p)
  case 0
  show ?case
  proof (cases "fs p")
    case None
    with "0.prems" show ?thesis by (simp add: chain_end.simps)
  next
    case (Some i)
    with "0.prems" show ?thesis
      by (cases i) (simp_all add: chain_end.simps follow.simps [of 0])
  qed
next
  case (Suc n)
  show ?case
  proof (cases "fs p")
    case None
    with Suc.prems show ?thesis by (simp add: chain_end.simps)
  next
    case (Some i)
    show ?thesis
    proof (cases i)
      case (Object k perm uid gid)
      with Some Suc.prems show ?thesis by (simp add: chain_end.simps)
    next
      case (Symlink target)
      with Some Suc.prems have "chain_end n fs target = None"
        by (simp add: chain_end.simps)
      from Suc.IH [OF this] Some Symlink show ?thesis
        by (simp add: follow.simps [of "Suc n"])
    next
      case NoAccess
      with Some Suc.prems show ?thesis by (simp add: chain_end.simps)
    qed
  qed
qed

lemma gdi_OSError_other:
  "os_stat env item = Inl OSError_other \<Longrightarrow> get_data_information env item = Inr None"
  by (simp add: get_data_information_def get_data_information_body_def)

lemma object_isdir: "S_ISDIR (ifmt k + perm mod 4096) \<longleftrightarrow> k = Directory"
proof -
  have "and (ifmt k + perm mod 4096) (4096 * 15) = 4096 * and (ifmt k div 4096) 15"
    by (simp only: and_file_type_bits ifmt_div)
  then show ?thesis
    by (cases k) (simp_all add: S_ISDIR_def stat_consts)
qed

lemma object_type_test:
  "and (ifmt k + perm mod 4096) (4096 * m) = 4096 * m \<longleftrightarrow> and (ifmt k div 4096) m = m"
  by (simp only: and_file_type_bits ifmt_div) simp

lemma object_type_char:
  "hd (get_filemode (ifmt k + perm mod 4096)) = spec_type_char k"
proof -
  have t: "S_IFLNK = 4096 * 10" "S_IFREG = 4096 * 8" "S_IFBLK = 4096 * 6"
    "S_IFDIR = 4096 * 4" "S_IFCHR = 4096 * 2" "S_IFIFO = 4096 * 1"
    by (simp_all add: stat_consts)
  have d: "ifmt Regular div 4096 = 8" "ifmt Directory div 4096 = 4" "ifmt BlockDev div 4096 = 6"
    "ifmt CharDev div 4096 = 2" "ifmt Fifo div 4096 = 1" "ifmt Socket div 4096 = 12"
    by (simp_all add: stat_consts)
  have "hd (get_filemode (ifmt k + perm mod 4096)) =
      first_match (ifmt k + perm mod 4096)
        [(4096 * 10, CHR ''l''), (4096 * 8, CHR ''-''), (4096 * 6, CHR ''b''),
         (4096 * 4, CHR ''d''), (4096 * 2, CHR ''c''), (4096 * 1, CHR ''p'')]"
    by (simp only: get_filemode_def filemode_list_def list.map list.sel t)
  also have "\<dots> = spec_type_char k"
    by (cases k) (simp_all only: first_match.simps object_type_test d, simp_all)
  finally show ?thesis .
qed

lemma ifmt_mod: "(ifmt k + perm mod 4096) mod 4096 = perm mod 4096"
proof -
  have "ifmt k = 4096 * (ifmt k div 4096)"
    by (cases k) (simp_all add: stat_consts)
  then obtain j where "ifmt k = 4096 * j" ..
  then show ?thesis by simp
qed

lemma and_low_bits:
  assumes "key < 4096"
  shows "and (ifmt k + perm mod 4096) key = and (perm mod 4096) key"
proof -
  have k: "take_bit 12 key = key"
    using assms by (simp add: take_bit_nat_eq_self)
  have low: "and x key = and (take_bit 12 x) key" for x :: nat
  proof (rule bit_eqI)
    fix n
    have "bit key n \<longleftrightarrow> n < 12 \<and> bit key n"
      by (subst k [symmetric]) (simp add: bit_take_bit_iff)
    then show "bit (and x key) n \<longleftrightarrow> bit (and (take_bit 12 x) key) n"
      by (auto simp: bit_and_iff bit_take_bit_iff)
  qed
  have "take_bit 12 (ifmt k + perm mod 4096) = perm mod 4096"
    by (simp add: take_bit_eq_mod ifmt_mod)
  with low [of "ifmt k + perm mod 4096"] show ?thesis by simp
qed

lemma first_match_low_bits:
  assumes "\<forall>kv \<in> set items. fst kv < 4096"
  shows "first_match (ifmt k + perm mod 4096) items = first_match (perm mod 4096) items"
  using assms by (induction items) (auto simp: and_low_bits)

lemma get_filemode_object:
  "get_filemode (ifmt k + perm mod 4096) =
     spec_type_char k # tl (get_filemode (perm mod 4096))"
proof -
  have low: "\<forall>items \<in> set (tl filemode_list). \<forall>kv \<in> set items. fst kv < 4096"
    by (simp add: filemode_list_def stat_consts)
  have split: "get_filemode m = hd (get_filemode m) # map (first_match m) (tl filemode_list)" for m
    by (simp add: get_filemode_def filemode_list_def)
  have "map (first_match (ifmt k + perm mod 4096)) (tl filemode_list) =
      map (first_match (perm mod 4096)) (tl filemode_list)"
    using low by (intro map_cong refl first_match_low_bits) blast
  moreover have "tl (get_filemode (perm mod 4096)) =
      map (first_match (perm mod 4096)) (tl filemode_list)"
    by (subst split) simp
  ultimately show ?thesis
    by (subst split) (simp add: object_type_char)
qed

lemma mode_string_object: "mode_string (ifmt k + perm mod 4096) = mode_string (perm mod 4096)"
  by (simp add: mode_string_def S_IMODE_mod ifmt_mod)

lemma gdi_object:
  assumes "os_stat env item = Inr \<lparr>st_mode = ifmt k + perm mod 4096, st_uid = uid, st_gid = gid\<rparr>"
    and "passwd env uid = Some user" and "groupdb env gid = Some grp"
  shows "get_data_information env item =
     Inr (Some \<lparr>entry_group = Some grp,
                 entry_mode = Some (mode_string (perm mod 4096)),
                 entry_type = Some (if k = Directory then ''directory'' else ''file''),
                 entry_user = Some user,
                 entry_prot = Some (spec_type_char k # tl (get_filemode (perm mod 4096)))\<rparr>)"
proof -
  have "os_path_isdir env item \<longleftrightarrow> k = Directory"
    by (simp add: os_path_isdir_def assms(1) object_isdir)
  then show ?thesis
    by (simp add: get_data_information_def get_data_information_body_def assms getpwuid_def
        getgrgid_def mode_string_object get_filemode_object)
qed

lemma os_stat_object:
  assumes "inodes env q = Some (Object k perm uid gid)"
  shows "os_stat env q = Inr \<lparr>st_mode = ifmt k + perm mod 4096, st_uid = uid, st_gid = gid\<rparr>"
  using assms by (simp add: os_stat_def follow.simps [of 40])

text \<open>
  C10: \<open>get_data_information\<close> reads the status with \<open>os.stat\<close>, which resolves symbolic
  links. Whatever chain of links a path starts, the entry returned for the path is the entry
  returned for the path at the end of the chain, which is not a link; when that is an object
  whose owner and group have names, the entry holds the object's group name, the octal
  string of its permission bits, \<open>directory\<close> or \<open>file\<close> after its kind, its owner name, and
  the symbolic string of its permission bits behind the type character of its kind. A chain
  of more than 40 links gives no record. And for no path at all does the symbolic string of
  a returned entry begin with \<open>l\<close>: the \<open>S_IFLNK\<close> entry of \<open>_filemode_list\<close> is never the
  one chosen.
\<close>

theorem link_is_described_by_its_target:
  "(chain_end 40 (inodes env) p = Some q \<longrightarrow>
      (\<forall>t. inodes env q \<noteq> Some (Symlink t)) \<and>
      get_data_information env p = get_data_information env q \<and>
      (\<forall>k perm uid gid user grp.
          inodes env q = Some (Object k perm uid gid) \<and>
          passwd env uid = Some user \<and> groupdb env gid = Some grp \<longrightarrow>
          get_data_information env p =
            Inr (Some \<lparr>entry_group = Some grp,
                        entry_mode = Some (mode_string (perm mod 4096)),
                        entry_type = Some (if k = Directory then ''directory'' else ''file''),
                        entry_user = Some user,
                        entry_prot = Some (spec_type_char k # tl (get_filemode (perm mod 4096)))\<rparr>))) \<and>
   (chain_end 40 (inodes env) p = None \<longrightarrow> get_data_information env p = Inr None) \<and>
   (get_data_information env item = Inr (Some e') \<and> entry_prot e' = Some s \<longrightarrow>
      length s = 10 \<and> hd s \<noteq> CHR ''l'')"
proof (intro conjI impI allI)
  assume ce: "chain_end 40 (inodes env) p = Some q"
  from chain_end_Some [OF ce] show "inodes env q \<noteq> Some (Symlink t)" for t
    by simp
  from chain_end_Some [OF ce] have "os_stat env p = os_stat env q"
    by (simp add: os_stat_def)
  then show eq: "get_data_information env p = get_data_information env q"
    by (rule gdi_stat_cong)
  fix k perm uid gid user grp
  assume a: "inodes env q = Some (Object k perm uid gid) \<and>
          passwd env uid = Some user \<and> groupdb env gid = Some grp"
  from a have "os_stat env q =
      Inr \<lparr>st_mode = ifmt k + perm mod 4096, st_uid = uid, st_gid = gid\<rparr>"
    by (intro os_stat_object) simp
  from gdi_object [OF this] a eq
  show "get_data_information env p =
            Inr (Some \<lparr>entry_group = Some grp,
                        entry_mode = Some (mode_string (perm mod 4096)),
                        entry_type = Some (if k = Directory then ''directory'' else ''file''),
                        entry_user = Some user,
                        entry_prot = Some (spec_type_char k # tl (get_filemode (perm mod 4096)))\<rparr>)"
    by simp
next
  assume "chain_end 40 (inodes env) p = None"
  from chain_end_None [OF this] have "os_stat env p = Inl OSError_other"
    by (simp add: os_stat_def)
  then show "get_data_information env p = Inr None"
    by (rule gdi_OSError_other)
next
  assume c: "get_data_information env item = Inr (Some e') \<and> entry_prot e' = Some s"
  from gdi_Some_stat [OF c [THEN conjunct1] c [THEN conjunct2]] obtain st where
    st: "os_stat env item = Inr st" and s: "s = get_filemode (st_mode st)" by blast
  from st have "and (st_mode st) S_IFLNK \<noteq> S_IFLNK"
    unfolding os_stat_def by (rule follow_not_link)
  from get_filemode_first_not_l [OF this] s show "length s = 10" "hd s \<noteq> CHR ''l''"
    by (simp_all add: length_get_filemode)
qed

lemma demo_chain_link2:
  "chain_end 40 (inodes demo_env) ''/tmp/demo/link2'' = Some ''/tmp/demo/bin''"
  by (simp add: demo_inodes_env demo_inodes_def chain_end.simps)

theorem link_is_described_by_its_target_witness:
  "chain_end 40 (inodes demo_env) ''/tmp/demo/link2'' = Some ''/tmp/demo/bin'' \<and>
   inodes demo_env ''/tmp/demo/link2'' = Some (Symlink ''/tmp/demo/link'') \<and>
   inodes demo_env ''/tmp/demo/link'' = Some (Symlink ''/tmp/demo/bin'') \<and>
   inodes demo_env ''/tmp/demo/bin'' = Some (Object Directory 488 0 1) \<and>
   passwd demo_env 0 = Some ''root'' \<and> groupdb demo_env 1 = Some ''wazuh'' \<and>
   get_data_information demo_env ''/tmp/demo/link2'' =
     get_data_information demo_env ''/tmp/demo/bin'' \<and>
   get_data_information demo_env ''/tmp/demo/link2'' =
     Inr (Some \<lparr>entry_group = Some ''wazuh'', entry_mode = Some ''750'',
                 entry_type = Some ''directory'', entry_user = Some ''root'',
                 entry_prot = Some ''drwxr-x---''\<rparr>) \<and>
   length ''drwxr-x---'' = 10 \<and> hd ''drwxr-x---'' \<noteq> CHR ''l''"
proof -
  have l2: "inodes demo_env ''/tmp/demo/link2'' = Some (Symlink ''/tmp/demo/link'')"
    and l1: "inodes demo_env ''/tmp/demo/link'' = Some (Symlink ''/tmp/demo/bin'')"
    and b: "inodes demo_env ''/tmp/demo/bin'' = Some (Object Directory 488 0 1)"
    by (simp_all add: demo_inodes_env demo_inodes_def)
  have u: "passwd demo_env 0 = Some ''root''" and g: "groupdb demo_env 1 = Some ''wazuh''"
    by (simp_all add: demo_passwd demo_groupdb)
  have m: "mode_string (488 mod 4096) = ''750''"
    by (simp add: mode_string_eval)
  have f: "spec_type_char Directory # tl (get_filemode (488 mod 4096)) = ''drwxr-x---''"
    by (simp add: get_filemode_def filemode_list_def stat_consts)
  note th = link_is_described_by_its_target [of demo_env "''/tmp/demo/link2''" "''/tmp/demo/bin''"
      "''/tmp/demo/link2''"
      "\<lparr>entry_group = Some ''wazuh'', entry_mode = Some ''750'',
        entry_type = Some ''directory'', entry_user = Some ''root'',
        entry_prot = Some ''drwxr-x---''\<rparr>" "''drwxr-x---''"]
  from th demo_chain_link2 have eq: "get_data_information demo_env ''/tmp/demo/link2'' =
     get_data_information demo_env ''/tmp/demo/bin''" by blast
  from th demo_chain_link2 b u g have "get_data_information demo_env ''/tmp/demo/link2'' =
     Inr (Some \<lparr>entry_group = Some ''wazuh'',
                 entry_mode = Some (mode_string (488 mod 4096)),
                 entry_type = Some (if Directory = Directory then ''directory'' else ''file''),
                 entry_user = Some ''root'',
                 entry_prot = Some (spec_type_char Directory # tl (get_filemode (488 mod 4096)))\<rparr>)"
    by blast
  then have r: "get_data_information demo_env ''/tmp/demo/link2'' =
     Inr (Some \<lparr>entry_group = Some ''wazuh'', entry_mode = Some ''750'',
                 entry_type = Some ''directory'', entry_user = Some ''root'',
                 entry_prot = Some ''drwxr-x---''\<rparr>)"
    by (simp only: m f if_True refl)
  from th r have c: "length ''drwxr-x---'' = 10 \<and> hd ''drwxr-x---'' \<noteq> CHR ''l''"
    by simp
  from demo_chain_link2 l2 l1 b u g eq r c show ?thesis by blast
qed

section \<open>Separators at the ends of a path\<close>

lemma path_join_trailing_slash:
  assumes "path \<noteq> []" and "last path \<noteq> CHR ''/''"
  shows "path_join (path @ ''/'') name = path_join path name"
  using assms by (simp add: path_join_def)

lemma os_walk_subdirs_cong:
  assumes "\<And>name. path_join p name = path_join q name"
  shows "os_walk_subdirs p dirs = os_walk_subdirs q dirs"
proof (induction dirs)
  case Nil
  show ?case by simp
next
  case (Cons d dirs)
  obtain name t where d: "d = (name, t)" by (cases d)
  show ?case
  proof (cases t)
    case None
    with d Cons.IH show ?thesis by simp
  next
    case (Some t')
    with d Cons.IH assms show ?thesis by simp
  qed
qed

lemma remove_ending_trailing_slash:
  assumes "path \<noteq> []" and "last path \<noteq> CHR ''/''"
  shows "remove_ending_bar_chars (path @ ''/'') = Inr path"
    and "remove_ending_bar_chars path = Inr path"
  using assms by (simp_all add: remove_ending_bar_chars_def)

lemma visit_dir_trailing_slash:
  assumes "path \<noteq> []" and "last path \<noteq> CHR ''/''"
  shows "visit_dir env rules s (path @ ''/'', dns, fns) = visit_dir env rules s (path, dns, fns)"
  unfolding visit_dir_def fst_conv snd_conv
  by (simp only: remove_ending_trailing_slash [OF assms])

lemma walk_loop_trailing_slash:
  assumes "path \<noteq> []" and "last path \<noteq> CHR ''/''"
  shows "walk_loop env rules s (os_walk (path @ ''/'') root) =
         walk_loop env rules s (os_walk path root)"
proof (cases root)
  case None
  then show ?thesis by (simp add: os_walk_def)
next
  case (Some t)
  obtain dirs nondirs where t: "t = Listing dirs nondirs" by (cases t)
  have "os_walk_subdirs (path @ ''/'') dirs = os_walk_subdirs path dirs"
    by (rule os_walk_subdirs_cong) (rule path_join_trailing_slash [OF assms])
  with Some t show ?thesis
    by (simp add: os_walk_def visit_dir_trailing_slash [OF assms])
qed

lemma remove_ending_spec:
  "remove_ending_bar_chars p = Inr d \<Longrightarrow> d = spec_strip_trailing p \<and> p \<noteq> []"
  by (auto simp: remove_ending_bar_chars_def spec_strip_trailing_def split: if_splits)

lemma remove_initial_spec:
  "remove_initial_bar_chars d = Inr aux \<Longrightarrow> aux = spec_strip_leading d \<and> d \<noteq> []"
  by (cases d) (auto simp: spec_strip_leading_def split: if_splits)

lemma spec_rule_matches_Nil: "\<not> spec_rule_matches [] aux"
  by (simp add: spec_rule_matches_def)

lemma spec_rule_matches_iff:
  assumes "r \<noteq> []"
  shows "spec_rule_matches r aux \<longleftrightarrow>
     mset (py_split (CHR ''/'') (spec_strip_leading r)) \<subseteq># mset (py_split (CHR ''/'') aux)"
  using assms by (cases r) (auto simp: spec_rule_matches_def spec_strip_leading_def)

lemma check_ignored_False:
  "check_ignored flag pl rules = Inr False \<Longrightarrow> [] \<notin> set rules"
proof (induction rules arbitrary: flag)
  case Nil
  show ?case by simp
next
  case (Cons r rs)
  show ?case
  proof (cases r)
    case Nil
    with Cons.prems show ?thesis by simp
  next
    case (Cons c cs)
    from Cons.prems have "check_ignored False pl rs = Inr False"
      by (auto split: sum.splits if_splits)
    from Cons.IH [OF this] Cons show ?thesis by simp
  qed
qed

lemma visit_dir_check:
  assumes "visit_dir env rules s t = Inr s'"
  shows "\<exists>d aux. remove_ending_bar_chars (fst t) = Inr d \<and> remove_initial_bar_chars d = Inr aux \<and>
           check_ignored (snd s) (mset (py_split (CHR ''/'') aux)) rules = Inr (snd s')"
proof -
  from assms obtain d where d: "remove_ending_bar_chars (fst t) = Inr d"
    by (auto simp: visit_dir_def split: sum.splits)
  from assms d obtain aux where aux: "remove_initial_bar_chars d = Inr aux"
    by (auto simp: visit_dir_def split: sum.splits)
  from assms d aux obtain flag where
    flag: "check_ignored (snd s) (mset (py_split (CHR ''/'') aux)) rules = Inr flag"
    by (auto simp: visit_dir_def split: sum.splits)
  from assms d aux flag have "snd s' = flag"
    by (auto simp: visit_dir_def split: sum.splits if_splits)
  with d aux flag show ?thesis by simp
qed

lemma excluded_in_spec_words:
  assumes "visit_dir env rules s t = Inr s'" and "rules = [] \<longrightarrow> \<not> snd s"
  shows "snd s' \<longleftrightarrow>
     (\<exists>rule \<in> set rules.
        mset (py_split (CHR ''/'') (spec_strip_leading rule)) \<subseteq>#
        mset (py_split (CHR ''/'') (spec_strip_leading (spec_strip_trailing (fst t)))))"
proof -
  from visit_dir_Inr [OF assms] obtain d aux where
    d: "remove_ending_bar_chars (fst t) = Inr d" and aux: "remove_initial_bar_chars d = Inr aux"
    and fl: "snd s' = spec_dir_excluded rules aux"
    by blast
  from remove_ending_spec [OF d] remove_initial_spec [OF aux]
  have a: "aux = spec_strip_leading (spec_strip_trailing (fst t))" by simp
  from visit_dir_check [OF assms(1)] d aux
  have ck: "check_ignored (snd s) (mset (py_split (CHR ''/'') aux)) rules = Inr (snd s')"
    by simp
  show ?thesis
  proof (cases "snd s'")
    case True
    with fl obtain rule where r: "rule \<in> set rules" "spec_rule_matches rule aux"
      by (auto simp: spec_dir_excluded_def)
    from r(2) spec_rule_matches_Nil have "rule \<noteq> []" by auto
    from spec_rule_matches_iff [OF this] r a True show ?thesis by auto
  next
    case False
    with ck have ne: "[] \<notin> set rules" by (auto dest: check_ignored_False)
    have "\<not> mset (py_split (CHR ''/'') (spec_strip_leading rule)) \<subseteq>#
        mset (py_split (CHR ''/'') aux)" if r: "rule \<in> set rules" for rule
    proof -
      from r ne have "rule \<noteq> []" by auto
      from spec_rule_matches_iff [OF this] r fl False show ?thesis
        by (auto simp: spec_dir_excluded_def)
    qed
    with False a show ?thesis by auto
  qed
qed

text \<open>
  C8, as stated, fails: for the root \<open>/tmp/demo/\<close> the trailing separator is stripped and
  the leading one is not; the key of the snapshot is \<open>/tmp/demo\<close>, and \<open>tmp/demo\<close> is not a
  key. (The rule \<open>demo/\<close> has the components \<open>demo\<close> and the empty string, which are not
  both among \<open>tmp\<close>, \<open>demo\<close>: the directory is not excluded.)
\<close>

theorem key_keeps_leading_separator:
  "get_current_items demo_env (Some empty_dir) ''/tmp/demo/'' [''demo/''] =
     Inr [''/tmp/demo'' \<mapsto> Some \<lparr>entry_group = Some ''root'', entry_mode = Some ''755'',
                 entry_type = Some ''directory'', entry_user = Some ''root'',
                 entry_prot = Some ''drwxr-xr-x''\<rparr>] \<and>
   [''/tmp/demo'' \<mapsto> Some \<lparr>entry_group = Some ''root'', entry_mode = Some ''755'',
                 entry_type = Some ''directory'', entry_user = Some ''root'',
                 entry_prot = Some ''drwxr-xr-x''\<rparr>] ''tmp/demo'' = None"
  by (simp add: walk_eval os_walk_empty_dir demo_gdi_root)

text \<open>
  C8, amended: for every directory path encountered during traversal, one trailing
  separator is stripped before the path is used as a key of the snapshot, and the leading
  separator stays in the key: the key of a directory that no rule matches is its path
  without one trailing separator, and the value is what \<open>get_data_information\<close> returns for
  that key. For the comparison against the exclusion rules, and only there, one leading
  separator is stripped as well, from the path and from each rule: the directory is excluded
  exactly when the components of some rule without its leading separator are contained, as a
  multiset, in the components of the path without one trailing and one leading separator.
  So a root that does not end with a separator and the same root with one appended, as
  \<open>/a/b\<close> and \<open>/a/b/\<close>, go through the same states of the walk, flag included, and give the
  same snapshot.
\<close>

theorem one_separator_stripped_key_keeps_leading:
  "(get_current_items env root path rules = Inr snap \<and>
    os_walk path root = pre @ (dirpath, dirnames, filenames) # post \<longrightarrow>
      (\<exists>s s'. walk_loop env rules (Map.empty, False) pre = Inr s \<and>
         visit_dir env rules s (dirpath, dirnames, filenames) = Inr s' \<and>
         (snd s' \<longleftrightarrow>
            (\<exists>rule \<in> set rules.
               mset (py_split (CHR ''/'') (spec_strip_leading rule)) \<subseteq>#
               mset (py_split (CHR ''/'') (spec_strip_leading (spec_strip_trailing dirpath))))) \<and>
         (snd s' \<longrightarrow> fst s' = fst s) \<and>
         (\<not> snd s' \<longrightarrow>
            (\<exists>v. fst s' (spec_strip_trailing dirpath) = Some v \<and>
                 snap (spec_strip_trailing dirpath) = Some v \<and>
                 get_data_information env (spec_strip_trailing dirpath) = Inr v)))) \<and>
   (path \<noteq> [] \<and> last path \<noteq> CHR ''/'' \<longrightarrow>
      walk_loop env rules s0 (os_walk (path @ ''/'') root) =
        walk_loop env rules s0 (os_walk path root) \<and>
      get_current_items env root (path @ ''/'') rules = get_current_items env root path rules)"
proof (intro conjI impI)
  assume a: "get_current_items env root path rules = Inr snap \<and>
    os_walk path root = pre @ (dirpath, dirnames, filenames) # post"
  let ?t = "(dirpath, dirnames, filenames)"
  let ?key = "spec_strip_trailing dirpath"
  from a have g: "get_current_items env root path rules = Inr snap" by simp
  from get_current_items_Inr [OF g] a obtain fl where
    w: "walk_loop env rules (Map.empty, False) (pre @ ?t # post) = Inr (snap, fl)"
    by auto
  then obtain s where s: "walk_loop env rules (Map.empty, False) pre = Inr s"
    and w2: "walk_loop env rules s (?t # post) = Inr (snap, fl)"
    by (auto simp: walk_loop_append split: sum.splits)
  from w2 obtain s' where v: "visit_dir env rules s ?t = Inr s'"
    and w3: "walk_loop env rules s' post = Inr (snap, fl)"
    by (auto split: sum.splits)
  from walk_loop_inv [OF s] have fs: "rules = [] \<longrightarrow> \<not> snd s" by simp
  from excluded_in_spec_words [OF v fs]
  have ex: "snd s' \<longleftrightarrow>
            (\<exists>rule \<in> set rules.
               mset (py_split (CHR ''/'') (spec_strip_leading rule)) \<subseteq>#
               mset (py_split (CHR ''/'') (spec_strip_leading ?key)))"
    by simp
  from visit_dir_Inr [OF v fs] obtain d aux where
    d: "remove_ending_bar_chars dirpath = Inr d" and aux: "remove_initial_bar_chars d = Inr aux"
    and fl': "snd s' = spec_dir_excluded rules aux"
    and same: "snd s' \<longrightarrow> fst s' = fst s"
    by auto
  from remove_ending_spec [OF d] have dk: "d = ?key" by simp
  have key: "\<exists>v. fst s' ?key = Some v \<and> snap ?key = Some v \<and>
      get_data_information env ?key = Inr v" if n: "\<not> snd s'"
  proof -
    from visit_dir_dom [OF v fs] d aux fl' n have "?key \<in> dom (fst s')"
      by (auto simp: dir_keys_def dk)
    then obtain v' where v': "fst s' ?key = Some v'" by blast
    have "snap_sound env (Map.empty :: snapshot)" by (simp add: snap_sound_def)
    with walk_loop_inv [OF s] have "snap_sound env (fst s)" by simp
    from visit_dir_sound [OF v fs this] v' have gv: "get_data_information env ?key = Inr v'"
      by (simp add: snap_sound_def)
    from walk_loop_inv [OF w3 visit_dir_flag [OF v fs]] v' have "?key \<in> dom snap"
      by auto
    then obtain v'' where v'': "snap ?key = Some v''" by blast
    with get_current_items_sound [OF g] gv have "v'' = v'"
      by (simp add: snap_sound_def)
    with v' v'' gv show ?thesis by simp
  qed
  from s v ex same key
  show "\<exists>s s'. walk_loop env rules (Map.empty, False) pre = Inr s \<and>
         visit_dir env rules s (dirpath, dirnames, filenames) = Inr s' \<and>
         (snd s' \<longleftrightarrow>
            (\<exists>rule \<in> set rules.
               mset (py_split (CHR ''/'') (spec_strip_leading rule)) \<subseteq>#
               mset (py_split (CHR ''/'') (spec_strip_leading (spec_strip_trailing dirpath))))) \<and>
         (snd s' \<longrightarrow> fst s' = fst s) \<and>
         (\<not> snd s' \<longrightarrow>
            (\<exists>v. fst s' (spec_strip_trailing dirpath) = Some v \<and>
                 snap (spec_strip_trailing dirpath) = Some v \<and>
                 get_data_information env (spec_strip_trailing dirpath) = Inr v))"
    by blast
next
  assume b: "path \<noteq> [] \<and> last path \<noteq> CHR ''/''"
  then have n: "path \<noteq> []" and l: "last path \<noteq> CHR ''/''" by simp_all
  show "walk_loop env rules s0 (os_walk (path @ ''/'') root) =
        walk_loop env rules s0 (os_walk path root)"
    by (rule walk_loop_trailing_slash [OF n l])
  show "get_current_items env root (path @ ''/'') rules = get_current_items env root path rules"
    by (simp add: get_current_items_def walk_loop_trailing_slash [OF n l])
qed

lemma demo_root_kept:
  "get_current_items demo_env (Some empty_dir) ''/tmp/demo/'' [''demo/''] =
     Inr [''/tmp/demo'' \<mapsto> Some \<lparr>entry_group = Some ''root'', entry_mode = Some ''755'',
                 entry_type = Some ''directory'', entry_user = Some ''root'',
                 entry_prot = Some ''drwxr-xr-x''\<rparr>]"
  and demo_root_kept_visit:
  "visit_dir demo_env [''demo/''] (Map.empty, False) (''/tmp/demo/'', [], []) =
     Inr ([''/tmp/demo'' \<mapsto> Some \<lparr>entry_group = Some ''root'', entry_mode = Some ''755'',
                 entry_type = Some ''directory'', entry_user = Some ''root'',
                 entry_prot = Some ''drwxr-xr-x''\<rparr>], False)"
  by (simp_all add: walk_eval os_walk_empty_dir demo_gdi_root)

lemma demo_root_excluded:
  "get_current_items demo_env (Some empty_dir) ''/tmp/demo/'' [''/demo''] = Inr Map.empty"
  and demo_root_excluded_visit:
  "visit_dir demo_env [''/demo''] (Map.empty, False) (''/tmp/demo/'', [], []) =
     Inr (Map.empty, True)"
  by (simp_all add: walk_eval os_walk_empty_dir)

theorem one_separator_stripped_key_keeps_leading_witness:
  "get_current_items demo_env (Some empty_dir) ''/tmp/demo/'' [''demo/''] =
     Inr [''/tmp/demo'' \<mapsto> Some \<lparr>entry_group = Some ''root'', entry_mode = Some ''755'',
                 entry_type = Some ''directory'', entry_user = Some ''root'',
                 entry_prot = Some ''drwxr-xr-x''\<rparr>] \<and>
   os_walk ''/tmp/demo/'' (Some empty_dir) = [] @ (''/tmp/demo/'', [], []) # [] \<and>
   spec_strip_trailing ''/tmp/demo/'' = ''/tmp/demo'' \<and>
   spec_strip_leading ''/tmp/demo'' = ''tmp/demo'' \<and>
   \<not> mset (py_split (CHR ''/'') (spec_strip_leading ''demo/'')) \<subseteq>#
       mset (py_split (CHR ''/'') ''tmp/demo'') \<and>
   mset (py_split (CHR ''/'') (spec_strip_leading ''demo/'')) \<subseteq>#
       mset (py_split (CHR ''/'') ''/tmp/demo'') \<and>
   visit_dir demo_env [''demo/''] (Map.empty, False) (''/tmp/demo/'', [], []) =
     Inr ([''/tmp/demo'' \<mapsto> Some \<lparr>entry_group = Some ''root'', entry_mode = Some ''755'',
                 entry_type = Some ''directory'', entry_user = Some ''root'',
                 entry_prot = Some ''drwxr-xr-x''\<rparr>], False) \<and>
   get_data_information demo_env ''/tmp/demo'' = Inr (Some \<lparr>entry_group = Some ''root'', entry_mode = Some ''755'',
                 entry_type = Some ''directory'', entry_user = Some ''root'',
                 entry_prot = Some ''drwxr-xr-x''\<rparr>) \<and>
   (\<exists>s s'. walk_loop demo_env [''demo/''] (Map.empty, False) [] = Inr s \<and>
         visit_dir demo_env [''demo/''] s (''/tmp/demo/'', [], []) = Inr s' \<and>
         (snd s' \<longleftrightarrow>
            (\<exists>rule \<in> set [''demo/''].
               mset (py_split (CHR ''/'') (spec_strip_leading rule)) \<subseteq>#
               mset (py_split (CHR ''/'') (spec_strip_leading (spec_strip_trailing ''/tmp/demo/''))))) \<and>
         (snd s' \<longrightarrow> fst s' = fst s) \<and>
         (\<not> snd s' \<longrightarrow>
            (\<exists>v. fst s' (spec_strip_trailing ''/tmp/demo/'') = Some v \<and>
                 [''/tmp/demo'' \<mapsto> Some \<lparr>entry_group = Some ''root'', entry_mode = Some ''755'',
                 entry_type = Some ''directory'', entry_user = Some ''root'',
                 entry_prot = Some ''drwxr-xr-x''\<rparr>] (spec_strip_trailing ''/tmp/demo/'') = Some v \<and>
                 get_data_information demo_env (spec_strip_trailing ''/tmp/demo/'') = Inr v))) \<and>
   get_current_items demo_env (Some empty_dir) ''/tmp/demo/'' [''/demo''] = Inr Map.empty \<and>
   visit_dir demo_env [''/demo''] (Map.empty, False) (''/tmp/demo/'', [], []) =
     Inr (Map.empty, True) \<and>
   mset (py_split (CHR ''/'') (spec_strip_leading ''/demo'')) \<subseteq>#
       mset (py_split (CHR ''/'') ''tmp/demo'') \<and>
   (\<exists>s s'. walk_loop demo_env [''/demo''] (Map.empty, False) [] = Inr s \<and>
         visit_dir demo_env [''/demo''] s (''/tmp/demo/'', [], []) = Inr s' \<and>
         (snd s' \<longleftrightarrow>
            (\<exists>rule \<in> set [''/demo''].
               mset (py_split (CHR ''/'') (spec_strip_leading rule)) \<subseteq>#
               mset (py_split (CHR ''/'') (spec_strip_leading (spec_strip_trailing ''/tmp/demo/''))))) \<and>
         (snd s' \<longrightarrow> fst s' = fst s) \<and>
         (\<not> snd s' \<longrightarrow>
            (\<exists>v. fst s' (spec_strip_trailing ''/tmp/demo/'') = Some v \<and>
                 Map.empty (spec_strip_trailing ''/tmp/demo/'') = Some v \<and>
                 get_data_information demo_env (spec_strip_trailing ''/tmp/demo/'') = Inr v))) \<and>
   ''/tmp/demo'' \<noteq> [] \<and> last ''/tmp/demo'' \<noteq> CHR ''/'' \<and>
   get_current_items demo_env (Some empty_dir) (''/tmp/demo'' @ ''/'') [''demo/''] =
     get_current_items demo_env (Some empty_dir) ''/tmp/demo'' [''demo/'']"
proof -
  have w: "os_walk ''/tmp/demo/'' (Some empty_dir) = [] @ (''/tmp/demo/'', [], []) # []"
    by (simp add: os_walk_empty_dir)
  have st: "spec_strip_trailing ''/tmp/demo/'' = ''/tmp/demo''"
    and sl: "spec_strip_leading ''/tmp/demo'' = ''tmp/demo''"
    by (simp_all add: spec_strip_trailing_def spec_strip_leading_def)
  have n1: "\<not> mset (py_split (CHR ''/'') (spec_strip_leading ''demo/'')) \<subseteq>#
       mset (py_split (CHR ''/'') ''tmp/demo'')"
    and n2: "mset (py_split (CHR ''/'') (spec_strip_leading ''demo/'')) \<subseteq>#
       mset (py_split (CHR ''/'') ''/tmp/demo'')"
    and n3: "mset (py_split (CHR ''/'') (spec_strip_leading ''/demo'')) \<subseteq>#
       mset (py_split (CHR ''/'') ''tmp/demo'')"
    by (simp_all add: spec_strip_leading_def)
  have ne: "''/tmp/demo'' \<noteq> []" and la: "last ''/tmp/demo'' \<noteq> CHR ''/''"
    by simp_all
  note a1 = one_separator_stripped_key_keeps_leading [of demo_env "Some empty_dir" "''/tmp/demo/''"
      "[''demo/'']" "[''/tmp/demo'' \<mapsto> Some \<lparr>entry_group = Some ''root'', entry_mode = Some ''755'',
                 entry_type = Some ''directory'', entry_user = Some ''root'',
                 entry_prot = Some ''drwxr-xr-x''\<rparr>]" "[]" "''/tmp/demo/''" "[]" "[]" "[]" "(Map.empty, False)",
      THEN conjunct1, rule_format, OF conjI, OF demo_root_kept(1) w]
  note a2 = one_separator_stripped_key_keeps_leading [of demo_env "Some empty_dir" "''/tmp/demo/''"
      "[''/demo'']" "Map.empty" "[]" "''/tmp/demo/''" "[]" "[]" "[]" "(Map.empty, False)",
      THEN conjunct1, rule_format, OF conjI, OF demo_root_excluded(1) w]
  note b = one_separator_stripped_key_keeps_leading [of demo_env "Some empty_dir" "''/tmp/demo''"
      "[''demo/'']" "Map.empty" "[]" "''/tmp/demo''" "[]" "[]" "[]" "(Map.empty, False)",
      THEN conjunct2, rule_format, OF conjI, OF ne la, THEN conjunct2]
  from demo_root_kept demo_root_kept_visit w st sl n1 n2 demo_gdi_root a1
    demo_root_excluded demo_root_excluded_visit n3 a2 ne la b
  show ?thesis by (intro conjI) assumption+
qed

section \<open>Excluded subtrees\<close>

lemma wf_subdirs_iff:
  "wf_subdirs dirs \<longleftrightarrow> (\<forall>n t. (n, Some t) \<in> set dirs \<longrightarrow> wf_tree t)"
proof (induction dirs)
  case Nil
  show ?case by simp
next
  case (Cons d dirs)
  obtain n t where d: "d = (n, t)" by (cases d)
  show ?case
  proof (cases t)
    case None
    with d Cons.IH show ?thesis by auto
  next
    case (Some t')
    with d Cons.IH show ?thesis by auto
  qed
qed

lemma in_os_walk_subdirs:
  "x \<in> set (os_walk_subdirs p dirs) \<longleftrightarrow>
     (\<exists>n t. (n, Some t) \<in> set dirs \<and> x \<in> set (os_walk_dir (path_join p n) t))"
proof (induction dirs)
  case Nil
  show ?case by simp
next
  case (Cons d dirs)
  obtain n t where d: "d = (n, t)" by (cases d)
  show ?case
  proof (cases t)
    case None
    with d Cons.IH show ?thesis by auto
  next
    case (Some t')
    with d Cons.IH show ?thesis by auto
  qed
qed

lemma slash_free_prefix_unique:
  assumes "a @ x = b @ y" and "c \<notin> set a" and "c \<notin> set b"
    and "x = [] \<or> hd x = c" and "y = [] \<or> hd y = c"
  shows "a = b \<and> x = y"
proof -
  have tw: "takeWhile (\<lambda>u. u \<noteq> c) (s @ z) = s" if "c \<notin> set s" and "z = [] \<or> hd z = c" for s z
  proof -
    from that(1) have "takeWhile (\<lambda>u. u \<noteq> c) (s @ z) = s @ takeWhile (\<lambda>u. u \<noteq> c) z"
      by (intro takeWhile_append2) auto
    moreover from that(2) have "takeWhile (\<lambda>u. u \<noteq> c) z = []"
      by (cases z) auto
    ultimately show ?thesis by simp
  qed
  from tw [OF assms(2,4)] tw [OF assms(3,5)] assms(1) have "a = b" by simp
  with assms(1) show ?thesis by simp
qed

lemma names_okD:
  assumes "names_ok (map fst dirs @ nondirs)"
  shows "(n, t) \<in> set dirs \<Longrightarrow> n \<noteq> [] \<and> CHR ''/'' \<notin> set n"
    and "f \<in> set nondirs \<Longrightarrow> f \<noteq> [] \<and> CHR ''/'' \<notin> set f"
    and "(n, t) \<in> set dirs \<Longrightarrow> n \<notin> set nondirs"
    and "(n, t) \<in> set dirs \<Longrightarrow> (n, t') \<in> set dirs \<Longrightarrow> t = t'"
proof -
  from assms have d: "distinct (map fst dirs)" and dj: "set (map fst dirs) \<inter> set nondirs = {}"
    and ok: "\<forall>m \<in> set (map fst dirs) \<union> set nondirs. m \<noteq> [] \<and> CHR ''/'' \<notin> set m"
    by (auto simp: names_ok_def)
  show "(n, t) \<in> set dirs \<Longrightarrow> n \<noteq> [] \<and> CHR ''/'' \<notin> set n"
    using ok by force
  show "f \<in> set nondirs \<Longrightarrow> f \<noteq> [] \<and> CHR ''/'' \<notin> set f"
    using ok by auto
  show "(n, t) \<in> set dirs \<Longrightarrow> n \<notin> set nondirs"
    using dj by force
  show "(n, t) \<in> set dirs \<Longrightarrow> (n, t') \<in> set dirs \<Longrightarrow> t = t'"
    using d by (rule eq_key_imp_eq_value)
qed

lemma remove_ending_no_slash:
  "p \<noteq> [] \<Longrightarrow> last p \<noteq> CHR ''/'' \<Longrightarrow> remove_ending_bar_chars p = Inr p"
  by (simp add: remove_ending_bar_chars_def)

lemma path_join_name:
  assumes "remove_ending_bar_chars p = Inr d" and "CHR ''/'' \<notin> set n"
  shows "path_join p n = d @ ''/'' @ n"
proof -
  from assms(1) have ne: "p \<noteq> []"
    by (auto simp: remove_ending_bar_chars_def)
  from assms(2) have hn: "\<not> (n \<noteq> [] \<and> hd n = CHR ''/'')"
    by (cases n) auto
  show ?thesis
  proof (cases "last p = CHR ''/''")
    case True
    with assms(1) ne have "d = butlast p"
      by (simp add: remove_ending_bar_chars_def)
    with True ne have "p = d @ ''/''"
      by (metis append_butlast_last_id)
    with True ne hn show ?thesis by (simp add: path_join_def)
  next
    case False
    with assms(1) ne have "d = p"
      by (simp add: remove_ending_bar_chars_def)
    with False ne hn show ?thesis by (simp add: path_join_def)
  qed
qed

lemma last_name_no_slash: "n \<noteq> [] \<Longrightarrow> CHR ''/'' \<notin> set n \<Longrightarrow> last n \<noteq> CHR ''/''"
  using last_in_set by metis

lemma sub_shape:
  assumes "wf_tree t" and "q \<noteq> []" and "last q \<noteq> CHR ''/''" and "x \<in> set (os_walk_dir q t)"
  shows "(\<exists>more. fst x = q @ more \<and> (more = [] \<or> hd more = CHR ''/'')) \<and>
         last (fst x) \<noteq> CHR ''/''"
  using assms
proof (induction t arbitrary: q x)
  case (Listing dirs nondirs)
  from Listing.prems(1) have ok: "names_ok (map fst dirs @ nondirs)" and wfs: "wf_subdirs dirs"
    by simp_all
  from Listing.prems(4) consider "x = (q, map fst dirs, nondirs)"
    | n tn where "(n, Some tn) \<in> set dirs" "x \<in> set (os_walk_dir (path_join q n) tn)"
    by (auto simp: in_os_walk_subdirs)
  then show ?case
  proof cases
    case 1
    with Listing.prems(3) show ?thesis by simp
  next
    case 2
    from names_okD(1) [OF ok 2(1)] have n: "n \<noteq> []" "CHR ''/'' \<notin> set n" by simp_all
    from wfs 2(1) have wft: "wf_tree tn" by (auto simp: wf_subdirs_iff)
    from Listing.prems(2,3) have "remove_ending_bar_chars q = Inr q"
      by (rule remove_ending_no_slash)
    from path_join_name [OF this n(2)] have pj: "path_join q n = q @ ''/'' @ n" .
    have l: "last (q @ ''/'' @ n) \<noteq> CHR ''/''"
      using n last_name_no_slash [OF n] by simp
    have mem: "(n, Some tn) \<in> set dirs" "Some tn \<in> Basic_BNFs.snds (n, Some tn)"
      "tn \<in> set_option (Some tn)"
      using 2(1) by simp_all
    have ne: "q @ ''/'' @ n \<noteq> []" by simp
    have x': "x \<in> set (os_walk_dir (q @ ''/'' @ n) tn)"
      using 2(2) pj by simp
    have "(\<exists>more. fst x = (q @ ''/'' @ n) @ more \<and> (more = [] \<or> hd more = CHR ''/'')) \<and>
         last (fst x) \<noteq> CHR ''/''"
      by (rule Listing.IH [OF mem wft ne l x'])
    then obtain more where m: "fst x = (q @ ''/'' @ n) @ more" "more = [] \<or> hd more = CHR ''/''"
      and lx: "last (fst x) \<noteq> CHR ''/''"
      by blast
    from m(1) have "fst x = q @ (''/'' @ n @ more)" by simp
    moreover have "hd (''/'' @ n @ more) = CHR ''/''" by simp
    ultimately show ?thesis using lx by blast
  qed
qed

lemma walk_files_slash_free:
  assumes "wf_tree t" and "x \<in> set (os_walk_dir p t)" and "f \<in> set (snd (snd x))"
  shows "CHR ''/'' \<notin> set f"
  using assms
proof (induction t arbitrary: p x)
  case (Listing dirs nondirs)
  from Listing.prems(1) have ok: "names_ok (map fst dirs @ nondirs)" and wfs: "wf_subdirs dirs"
    by simp_all
  from Listing.prems(2) consider "x = (p, map fst dirs, nondirs)"
    | n tn where "(n, Some tn) \<in> set dirs" "x \<in> set (os_walk_dir (path_join p n) tn)"
    by (auto simp: in_os_walk_subdirs)
  then show ?case
  proof cases
    case 1
    with Listing.prems(3) names_okD(2) [OF ok] show ?thesis by simp
  next
    case 2
    from wfs 2(1) have wft: "wf_tree tn" by (auto simp: wf_subdirs_iff)
    have "(n, Some tn) \<in> set dirs" "Some tn \<in> Basic_BNFs.snds (n, Some tn)" "tn \<in> set_option (Some tn)"
      using 2(1) by simp_all
    from Listing.IH [OF this wft 2(2) Listing.prems(3)] show ?thesis .
  qed
qed

lemma no_file_key_is_a_dir_key:
  assumes "wf_tree t" and "remove_ending_bar_chars p = Inr K"
    and "t1 \<in> set (os_walk_dir p t)" and "t2 \<in> set (os_walk_dir p t)"
    and "f \<in> set (snd (snd t2))"
    and "remove_ending_bar_chars (fst t1) = Inr d1"
    and "remove_ending_bar_chars (fst t2) = Inr d2"
  shows "d1 \<noteq> d2 @ ''/'' @ f"
  using assms
proof (induction t arbitrary: p K t1 t2 d1 d2)
  case (Listing dirs nondirs)
  from Listing.prems(1) have ok: "names_ok (map fst dirs @ nondirs)" and wfs: "wf_subdirs dirs"
    by simp_all
  note K = Listing.prems(2)
  have sub: "\<exists>more. fst x = K @ ''/'' @ n @ more \<and> (more = [] \<or> hd more = CHR ''/'') \<and>
        remove_ending_bar_chars (fst x) = Inr (fst x) \<and> CHR ''/'' \<notin> set n \<and> wf_tree tn \<and>
        x \<in> set (os_walk_dir (K @ ''/'' @ n) tn) \<and>
        remove_ending_bar_chars (K @ ''/'' @ n) = Inr (K @ ''/'' @ n)"
    if mem: "(n, Some tn) \<in> set dirs" and x: "x \<in> set (os_walk_dir (path_join p n) tn)"
    for n tn x
  proof -
    from names_okD(1) [OF ok mem] have n: "n \<noteq> []" "CHR ''/'' \<notin> set n" by simp_all
    from wfs mem have wft: "wf_tree tn" by (auto simp: wf_subdirs_iff)
    from path_join_name [OF K n(2)] have pj: "path_join p n = K @ ''/'' @ n" .
    have ne: "K @ ''/'' @ n \<noteq> []" by simp
    have l: "last (K @ ''/'' @ n) \<noteq> CHR ''/''"
      using n last_name_no_slash [OF n] by simp
    from x pj have x': "x \<in> set (os_walk_dir (K @ ''/'' @ n) tn)" by simp
    from sub_shape [OF wft ne l x'] obtain more where
      m: "fst x = (K @ ''/'' @ n) @ more" "more = [] \<or> hd more = CHR ''/''"
      and lx: "last (fst x) \<noteq> CHR ''/''" by blast
    from m(1) have nx: "fst x \<noteq> []" by simp
    from m(1) have "fst x = K @ ''/'' @ n @ more" by simp
    with m(2) remove_ending_no_slash [OF nx lx] n(2) wft x' remove_ending_no_slash [OF ne l]
    show ?thesis by blast
  qed
  from Listing.prems(3) consider (root1) "t1 = (p, map fst dirs, nondirs)"
    | (sub1) n1 tn1 where "(n1, Some tn1) \<in> set dirs" "t1 \<in> set (os_walk_dir (path_join p n1) tn1)"
    by (auto simp: in_os_walk_subdirs)
  then show ?case
  proof cases
    case root1
    with K Listing.prems(6) have d1: "d1 = K" by simp
    from Listing.prems(4) consider (root2) "t2 = (p, map fst dirs, nondirs)"
      | (sub2) n2 tn2 where "(n2, Some tn2) \<in> set dirs" "t2 \<in> set (os_walk_dir (path_join p n2) tn2)"
      by (auto simp: in_os_walk_subdirs)
    then show ?thesis
    proof cases
      case root2
      with K Listing.prems(7) have "d2 = K" by simp
      with d1 show ?thesis by simp
    next
      case sub2
      from sub [OF sub2] Listing.prems(7) obtain more where "d2 = K @ ''/'' @ n2 @ more"
        by auto
      with d1 show ?thesis by simp
    qed
  next
    case sub1
    from sub [OF sub1] Listing.prems(6) obtain more1 where
      d1: "d1 = K @ ''/'' @ n1 @ more1" and m1: "more1 = [] \<or> hd more1 = CHR ''/''"
      and n1: "CHR ''/'' \<notin> set n1" and d1x: "d1 = fst t1"
      and wf1: "wf_tree tn1" and x1: "t1 \<in> set (os_walk_dir (K @ ''/'' @ n1) tn1)"
      and q1: "remove_ending_bar_chars (K @ ''/'' @ n1) = Inr (K @ ''/'' @ n1)"
      by auto
    from Listing.prems(4) consider (root2) "t2 = (p, map fst dirs, nondirs)"
      | (sub2) n2 tn2 where "(n2, Some tn2) \<in> set dirs" "t2 \<in> set (os_walk_dir (path_join p n2) tn2)"
      by (auto simp: in_os_walk_subdirs)
    then show ?thesis
    proof cases
      case root2
      with K Listing.prems(7) have d2: "d2 = K" by simp
      from root2 Listing.prems(5) have fn: "f \<in> set nondirs" by simp
      from names_okD(2) [OF ok fn] have f: "CHR ''/'' \<notin> set f" by simp
      show ?thesis
      proof
        assume "d1 = d2 @ ''/'' @ f"
        with d1 d2 have e: "n1 @ more1 = f @ []" by simp
        from slash_free_prefix_unique [OF e n1 f m1] have "n1 = f" by simp
        with names_okD(3) [OF ok sub1(1)] fn show False by simp
      qed
    next
      case sub2
      from sub [OF sub2] Listing.prems(7) obtain more2 where
        d2: "d2 = K @ ''/'' @ n2 @ more2"
        and n2: "CHR ''/'' \<notin> set n2" and d2x: "d2 = fst t2"
        and x2: "t2 \<in> set (os_walk_dir (K @ ''/'' @ n2) tn2)"
        by auto
      show ?thesis
      proof
        assume a: "d1 = d2 @ ''/'' @ f"
        with d1 d2 have e: "n1 @ more1 = n2 @ (more2 @ ''/'' @ f)" by simp
        have h: "more2 @ ''/'' @ f = [] \<or> hd (more2 @ ''/'' @ f) = CHR ''/''"
        proof (cases more2)
          case Nil
          then show ?thesis by simp
        next
          case (Cons c cs)
          with sub [OF sub2] d2 d2x show ?thesis by auto
        qed
        from slash_free_prefix_unique [OF e n1 n2 m1 h] have nn: "n1 = n2" by simp
        with names_okD(4) [OF ok sub1(1)] sub2(1) have "tn1 = tn2" by auto
        with nn x2 have x2': "t2 \<in> set (os_walk_dir (K @ ''/'' @ n1) tn1)" by simp
        have mem: "(n1, Some tn1) \<in> set dirs" "Some tn1 \<in> Basic_BNFs.snds (n1, Some tn1)"
          "tn1 \<in> set_option (Some tn1)"
          using sub1(1) by simp_all
        from Listing.IH [OF mem wf1 q1 x1 x2' Listing.prems(5,6,7)] a show False by simp
      qed
    qed
  qed
qed

lemma file_key_below:
  assumes "d' @ ''/'' @ f = d @ ''/'' @ rest" and "CHR ''/'' \<notin> set f"
  shows "d' = d \<or> (\<exists>r. d' = d @ ''/'' @ r)"
proof -
  from assms(1) obtain us where
    "d' = d @ us \<and> us @ ''/'' @ f = ''/'' @ rest \<or> d' @ us = d \<and> ''/'' @ f = us @ ''/'' @ rest"
    by (auto simp: append_eq_append_conv2)
  then show ?thesis
  proof
    assume a: "d' = d @ us \<and> us @ ''/'' @ f = ''/'' @ rest"
    show ?thesis
    proof (cases us)
      case Nil
      with a show ?thesis by simp
    next
      case (Cons u us')
      with a have "u = CHR ''/''" by simp
      with a Cons show ?thesis by simp
    qed
  next
    assume a: "d' @ us = d \<and> ''/'' @ f = us @ ''/'' @ rest"
    show ?thesis
    proof (cases us)
      case Nil
      with a show ?thesis by simp
    next
      case (Cons u us')
      with a have "f = us' @ ''/'' @ rest" by simp
      with assms(2) show ?thesis by simp
    qed
  qed
qed

lemma remove_initial_append:
  assumes "remove_initial_bar_chars d = Inr aux"
  shows "remove_initial_bar_chars (d @ ''/'' @ r) = Inr (aux @ ''/'' @ r)"
  using assms by (cases d) (auto split: if_splits)

lemma spec_rule_matches_below:
  assumes "spec_rule_matches rule aux"
  shows "spec_rule_matches rule (aux @ ''/'' @ r)"
proof -
  have "py_split (CHR ''/'') (aux @ ''/'' @ r) = py_split (CHR ''/'') aux @ py_split (CHR ''/'') r"
    using py_split_append [of "CHR ''/''" aux r] by simp
  then have "mset (py_split (CHR ''/'') aux) \<subseteq># mset (py_split (CHR ''/'') (aux @ ''/'' @ r))"
    by simp
  with assms show ?thesis
    by (auto simp: spec_rule_matches_def split: sum.splits intro: subset_mset.order_trans)
qed

lemma excluded_at_or_below:
  assumes "remove_initial_bar_chars d = Inr aux" and "spec_dir_excluded rules aux"
    and "d' = d \<or> (\<exists>r. d' = d @ ''/'' @ r)"
    and "remove_initial_bar_chars d' = Inr aux'"
  shows "spec_dir_excluded rules aux'"
proof -
  from assms(3) show ?thesis
  proof
    assume "d' = d"
    with assms(1,2,4) show ?thesis by simp
  next
    assume "\<exists>r. d' = d @ ''/'' @ r"
    then obtain r where "d' = d @ ''/'' @ r" ..
    with remove_initial_append [OF assms(1), of r] assms(4)
    have "aux' = aux @ ''/'' @ r" by simp
    with assms(2) spec_rule_matches_below show ?thesis
      by (auto simp: spec_dir_excluded_def)
  qed
qed

lemma walk_root_key:
  assumes "get_current_items env (Some t) path rules = Inr snap"
  shows "\<exists>K. remove_ending_bar_chars path = Inr K"
proof -
  obtain dirs nondirs where t: "t = Listing dirs nondirs" by (cases t)
  from assms t obtain s1 where
    "visit_dir env rules (Map.empty, False) (path, map fst dirs, nondirs) = Inr s1"
    by (auto simp: get_current_items_def os_walk_def split: sum.splits)
  then show ?thesis
    by (auto simp: visit_dir_def split: sum.splits)
qed

text \<open>
  C6: in a run that returns a snapshot, over a tree in which the names of every directory
  are distinct, not empty and free of separators, take a directory that the walk visits and
  an exclusion rule that matches it under the multiset-containment test. Then the
  directory's path is not a key of the snapshot, and no path beneath it is: no key has the
  form of the directory's path followed by a separator and anything else, be it a
  descendant directory or a file in one of them.
\<close>

theorem excluded_directory_subtree_has_no_keys:
  assumes "get_current_items env root path rules = Inr snap"
    and "wf_root root"
    and "(dirpath, dirnames, filenames) \<in> set (os_walk path root)"
    and "remove_ending_bar_chars dirpath = Inr d"
    and "remove_initial_bar_chars d = Inr aux"
    and "rule \<in> set rules" and "spec_rule_matches rule aux"
  shows "snap d = None \<and> (\<forall>rest. snap (d @ ''/'' @ rest) = None)"
proof -
  from assms(3) obtain t where root: "root = Some t"
    by (cases root) (auto simp: os_walk_def)
  with assms(2) have wf: "wf_tree t" by (simp add: wf_root_def)
  from assms(1) root walk_root_key obtain K where K: "remove_ending_bar_chars path = Inr K"
    by blast
  from assms(3) root have tin: "(dirpath, dirnames, filenames) \<in> set (os_walk_dir path t)"
    by (simp add: os_walk_def)
  from assms(6,7) have ex: "spec_dir_excluded rules aux"
    by (auto simp: spec_dir_excluded_def)
  have no: "k \<notin> dom snap" if k: "k = d \<or> (\<exists>rest. k = d @ ''/'' @ rest)" for k
  proof
    assume "k \<in> dom snap"
    with get_current_items_dom [OF assms(1)] root obtain t' where
      t': "t' \<in> set (os_walk_dir path t)" and kk: "k \<in> dir_keys rules t'"
      by (auto simp: os_walk_def)
    from kk obtain d' aux' where d': "remove_ending_bar_chars (fst t') = Inr d'"
      and aux': "remove_initial_bar_chars d' = Inr aux'"
      and nex: "\<not> spec_dir_excluded rules aux'"
      and kin: "k = d' \<or> k \<in> file_keys rules d' (snd (snd t'))"
      by (auto simp: dir_keys_def split: sum.splits if_splits)
    from kin show False
    proof
      assume "k = d'"
      with k have "d' = d \<or> (\<exists>r. d' = d @ ''/'' @ r)" by simp
      from excluded_at_or_below [OF assms(5) ex this aux'] nex show False by simp
    next
      assume "k \<in> file_keys rules d' (snd (snd t'))"
      then obtain f where f: "f \<in> set (snd (snd t'))" and kf: "k = d' @ ''/'' @ f"
        by (auto simp: file_keys_def)
      from walk_files_slash_free [OF wf t' f] have sf: "CHR ''/'' \<notin> set f" .
      from k show False
      proof
        assume "k = d"
        with kf have "d = d' @ ''/'' @ f" by simp
        moreover have "d \<noteq> d' @ ''/'' @ f"
          using no_file_key_is_a_dir_key [OF wf K tin t' f _ d'] assms(4) by simp
        ultimately show False by simp
      next
        assume "\<exists>rest. k = d @ ''/'' @ rest"
        then obtain rest where "k = d @ ''/'' @ rest" ..
        with kf have "d' @ ''/'' @ f = d @ ''/'' @ rest" by simp
        from file_key_below [OF this sf] have "d' = d \<or> (\<exists>r. d' = d @ ''/'' @ r)" .
        from excluded_at_or_below [OF assms(5) ex this aux'] nex show False by simp
      qed
    qed
  qed
  from no show ?thesis by (auto simp: domIff)
qed

lemma demo_wf: "wf_root (Some demo_tree)"
  by (simp add: wf_root_def demo_tree_def names_ok_def)

lemma demo_bin_excluded:
  "get_current_items demo_env (Some demo_tree) ''/tmp/demo'' [''/tmp/demo/bin''] =
     Inr [''/tmp/demo'' \<mapsto> Some \<lparr>entry_group = Some ''root'', entry_mode = Some ''755'',
                 entry_type = Some ''directory'', entry_user = Some ''root'',
                 entry_prot = Some ''drwxr-xr-x''\<rparr>]"
  by (simp add: walk_eval demo_walk demo_gdi_root)

theorem excluded_directory_subtree_has_no_keys_witness:
  "get_current_items demo_env (Some demo_tree) ''/tmp/demo'' [''/tmp/demo/bin''] =
     Inr [''/tmp/demo'' \<mapsto> Some \<lparr>entry_group = Some ''root'', entry_mode = Some ''755'',
                 entry_type = Some ''directory'', entry_user = Some ''root'',
                 entry_prot = Some ''drwxr-xr-x''\<rparr>] \<and>
   wf_root (Some demo_tree) \<and>
   (''/tmp/demo/bin'', [], [''run.sh'']) \<in> set (os_walk ''/tmp/demo'' (Some demo_tree)) \<and>
   remove_ending_bar_chars ''/tmp/demo/bin'' = Inr ''/tmp/demo/bin'' \<and>
   remove_initial_bar_chars ''/tmp/demo/bin'' = Inr ''tmp/demo/bin'' \<and>
   ''/tmp/demo/bin'' \<in> set [''/tmp/demo/bin''] \<and>
   spec_rule_matches ''/tmp/demo/bin'' ''tmp/demo/bin'' \<and>
   [''/tmp/demo'' \<mapsto> Some \<lparr>entry_group = Some ''root'', entry_mode = Some ''755'',
                 entry_type = Some ''directory'', entry_user = Some ''root'',
                 entry_prot = Some ''drwxr-xr-x''\<rparr>] ''/tmp/demo/bin'' = None \<and>
   [''/tmp/demo'' \<mapsto> Some \<lparr>entry_group = Some ''root'', entry_mode = Some ''755'',
                 entry_type = Some ''directory'', entry_user = Some ''root'',
                 entry_prot = Some ''drwxr-xr-x''\<rparr>] (''/tmp/demo/bin'' @ ''/'' @ ''run.sh'') = None"
proof -
  have t: "(''/tmp/demo/bin'', [], [''run.sh'']) \<in> set (os_walk ''/tmp/demo'' (Some demo_tree))"
    by (simp add: demo_walk)
  have d: "remove_ending_bar_chars ''/tmp/demo/bin'' = Inr ''/tmp/demo/bin''"
    by (simp add: remove_ending_bar_chars_def)
  have a: "remove_initial_bar_chars ''/tmp/demo/bin'' = Inr ''tmp/demo/bin''"
    by simp
  have r: "''/tmp/demo/bin'' \<in> set [''/tmp/demo/bin'']"
    by simp
  have m: "spec_rule_matches ''/tmp/demo/bin'' ''tmp/demo/bin''"
    by (simp add: spec_rule_matches_def)
  note th = excluded_directory_subtree_has_no_keys [OF demo_bin_excluded demo_wf t d a r m]
  from th have c1: "[''/tmp/demo'' \<mapsto> Some \<lparr>entry_group = Some ''root'', entry_mode = Some ''755'',
                 entry_type = Some ''directory'', entry_user = Some ''root'',
                 entry_prot = Some ''drwxr-xr-x''\<rparr>] ''/tmp/demo/bin'' = None" ..
  from th have c2: "[''/tmp/demo'' \<mapsto> Some \<lparr>entry_group = Some ''root'', entry_mode = Some ''755'',
                 entry_type = Some ''directory'', entry_user = Some ''root'',
                 entry_prot = Some ''drwxr-xr-x''\<rparr>] (''/tmp/demo/bin'' @ ''/'' @ ''run.sh'') = None"
    by blast
  from demo_bin_excluded demo_wf t d a r m c1 c2 show ?thesis by blast
qed

end
